theory Spec2Isabelle
  imports Main "HOL-Library.Sublist"
begin

section \<open>Python values the script works with\<close>

text \<open>
  The script \<^verbatim>\<open>web_scrapping_RSPO.py\<close> drives a browser through Playwright. Every
  \<^verbatim>\<open>await\<close> on the page may raise. \<^verbatim>\<open>except Exception\<close> catches the classes
  that derive from \<^verbatim>\<open>Exception\<close> (Playwright's \<^verbatim>\<open>TimeoutError\<close> and \<^verbatim>\<open>Error\<close>,
  \<^verbatim>\<open>OSError\<close>); \<^verbatim>\<open>asyncio.CancelledError\<close> and \<^verbatim>\<open>KeyboardInterrupt\<close> derive
  from \<^verbatim>\<open>BaseException\<close> only and pass through such a handler.
\<close>

datatype exn = TimeoutError | PlaywrightError | OSError | CancelledError | KeyboardInterrupt

fun is_Exception :: "exn \<Rightarrow> bool" where
  "is_Exception CancelledError = False"
| "is_Exception KeyboardInterrupt = False"
| "is_Exception _ = True"

text \<open>
  A Python \<^verbatim>\<open>str\<close> is a sequence of Unicode code points, here a list of natural
  numbers; \<open>ustr\<close> reads an ASCII literal as such a sequence. \<^verbatim>\<open>str.strip()\<close> removes
  leading and trailing white space, the code points for which \<^verbatim>\<open>str.isspace()\<close> holds:
  U+0009 to U+000D, U+001C to U+0020, U+0085, U+00A0, U+1680, U+2000 to U+200A, U+2028,
  U+2029, U+202F, U+205F and U+3000.
\<close>

type_synonym str = "nat list"

definition ustr :: "string \<Rightarrow> str" where
  "ustr s = map of_char s"

definition isspace :: "nat \<Rightarrow> bool" where
  "isspace c = ((0x09 \<le> c \<and> c \<le> 0x0D) \<or> (0x1C \<le> c \<and> c \<le> 0x20)
                \<or> c = 0x85 \<or> c = 0xA0 \<or> c = 0x1680 \<or> (0x2000 \<le> c \<and> c \<le> 0x200A)
                \<or> c = 0x2028 \<or> c = 0x2029 \<or> c = 0x202F \<or> c = 0x205F \<or> c = 0x3000)"

definition strip :: "str \<Rightarrow> str" where
  "strip s = rev (dropWhile isspace (rev (dropWhile isspace s)))"

text \<open>\<^verbatim>\<open>str(n)\<close> for a non-negative integer: its decimal digits, most significant first.\<close>

definition digit_char :: "nat \<Rightarrow> nat" where
  "digit_char d = of_char (CHR ''0'') + d"

fun str_nat :: "nat \<Rightarrow> str" where
  "str_nat n = (if n < 10 then [digit_char n] else str_nat (n div 10) @ [digit_char (n mod 10)])"

declare str_nat.simps [simp del]

text \<open>
  The license start date is a pandas \<^verbatim>\<open>Timestamp\<close> parsed with \<^verbatim>\<open>%d-%b-%Y\<close>, so
  it carries a calendar day only. \<^verbatim>\<open>strftime('%Y-%m-%d')\<close> writes the year on four
  digits and month and day on two, padded with zeros.
\<close>

record timestamp =
  year :: nat
  month :: nat
  day :: nat

definition zfill :: "nat \<Rightarrow> str \<Rightarrow> str" where
  "zfill w s = replicate (w - length s) (of_char (CHR ''0'')) @ s"

definition strftime :: "timestamp \<Rightarrow> str" where
  "strftime t = zfill 4 (str_nat (year t)) @ ustr ''-'' @ zfill 2 (str_nat (month t)) @ ustr ''-''
                @ zfill 2 (str_nat (day t))"

text \<open>\<^verbatim>\<open>os.path.join(a, b)\<close> on POSIX, for two components.\<close>

definition os_path_join :: "str \<Rightarrow> str \<Rightarrow> str" where
  "os_path_join a b =
     (if b \<noteq> [] \<and> hd b = of_char (CHR ''/'') then b
      else if a = [] \<or> last a = of_char (CHR ''/'') then a @ b
      else a @ ustr ''/'' @ b)"

definition DOWNLOADS_DIR :: str where
  "DOWNLOADS_DIR = ustr ''....''"

section \<open>Inputs: the target records and what the browser does\<close>

text \<open>One row of \<^verbatim>\<open>target_records\<close> (lines 86, 99, 100).\<close>

record target_row =
  account_id :: str
  start_date :: timestamp

text \<open>
  The calls the script makes on the browser, in the order of the source: the session
  (lines 93 to 96 and 170), the locate phase (lines 103 to 143), and per attachment the
  click inside \<^verbatim>\<open>expect_download\<close> (lines 150 to 152) and \<^verbatim>\<open>save_as\<close> (line 155).
\<close>

datatype call =
    StartPlaywright | Launch | NewContext | NewPage | CloseBrowser
  | Goto | WaitGrid
  | WaitSearch | QuerySearch | ClickSearch | FillSearch | TypeSearch str | PressEnter
  | Blur | SettleSearch | QueryRows | QueryCells | InnerText
  | ClickRow | SettleDetail | QueryElements
  | ClickElement nat | SaveAs str

text \<open>
  What one "Audit Report" element does when clicked: no download arrives (the click or
  the wait raises), or a download arrives, with the file name the site suggests, and
  \<^verbatim>\<open>save_as\<close> then raises or completes.
\<close>

datatype attempt = NoDownload exn | Download str "exn option"

text \<open>
  What the site shows during the visit for one record: which calls raise when reached,
  whether \<^verbatim>\<open>query_selector("input#search")\<close> finds the box, the inner texts of the
  cells of each grid row, and the "Audit Report" elements of the detail view.
\<close>

record page =
  raises :: "call \<Rightarrow> exn option"
  search_box :: bool
  rows :: "str list list"
  elements :: "attempt list"

section \<open>State and control flow\<close>

text \<open>A dictionary appended to \<^verbatim>\<open>download_log\<close>, keys in insertion order.\<close>

type_synonym entry = "(str \<times> str) list"

text \<open>One constructor per \<^verbatim>\<open>print\<close> statement of \<^verbatim>\<open>download_audit_reports\<close>.\<close>

datatype line =
    Searching str | SearchBarNotFound str | NoSearchResults str
  | UnexpectedRowFormat str | PoId str | Mismatch str | NoAuditReports str
  | Saved str | DownloadFailed str exn | ErrorProcessing str exn
  | LogSaved str

text \<open>
  The state the function acts on: the module-level list \<^verbatim>\<open>download_log\<close>, the paths
  for which \<^verbatim>\<open>download.save_as\<close> has completed, the printed lines, the calls made on
  the browser, and the content of \<^verbatim>\<open>download_log.csv\<close> once written (header line,
  then one line of fields per entry).
\<close>

record state =
  download_log :: "entry list"
  files :: "str list"
  console :: "line list"
  page_calls :: "call list"
  log_csv :: "str option list list option"

definition init :: state where
  "init = \<lparr>download_log = [], files = [], console = [], page_calls = [], log_csv = None\<rparr>"

text \<open>A statement maps a state to the exception it raises, if any, and the state it leaves.\<close>

type_synonym step = "state \<Rightarrow> exn option \<times> state"

definition skip :: step where
  "skip s = (None, s)"

definition seq :: "step \<Rightarrow> step \<Rightarrow> step" where
  "seq f g s = (case f s of (None, s') \<Rightarrow> g s' | (Some e, s') \<Rightarrow> (Some e, s'))"

fun block :: "step list \<Rightarrow> step" where
  "block [] = skip"
| "block (f # fs) = seq f (block fs)"

definition try_except :: "step \<Rightarrow> (exn \<Rightarrow> step) \<Rightarrow> step" where
  "try_except body handler s =
     (case body s of
        (None, s') \<Rightarrow> (None, s')
      | (Some e, s') \<Rightarrow> if is_Exception e then handler e s' else (Some e, s'))"

definition print :: "line \<Rightarrow> step" where
  "print l s = (None, s\<lparr>console := console s @ [l]\<rparr>)"

definition call :: "(call \<Rightarrow> exn option) \<Rightarrow> call \<Rightarrow> step" where
  "call rs c s = (rs c, s\<lparr>page_calls := page_calls s @ [c]\<rparr>)"

definition save_as :: "exn option \<Rightarrow> str \<Rightarrow> step" where
  "save_as outcome path s =
     (case outcome of
        Some e \<Rightarrow> (Some e, s\<lparr>page_calls := page_calls s @ [SaveAs path]\<rparr>)
      | None \<Rightarrow> (None, s\<lparr>page_calls := page_calls s @ [SaveAs path],
                          files := files s @ [path]\<rparr>))"

definition append_log :: "entry \<Rightarrow> step" where
  "append_log e s = (None, s\<lparr>download_log := download_log s @ [e]\<rparr>)"

section \<open>The attachment loop (lines 148 to 164)\<close>

definition audit_filename :: "str \<Rightarrow> timestamp \<Rightarrow> nat \<Rightarrow> str" where
  "audit_filename prisma_id license_start j =
     prisma_id @ ustr ''_'' @ strftime license_start @ ustr ''_audit_'' @ str_nat (j + 1) @ ustr ''.pdf''"

definition log_entry :: "str \<Rightarrow> timestamp \<Rightarrow> str \<Rightarrow> entry" where
  "log_entry prisma_id license_start filename =
     [(ustr ''Prisma ID'', prisma_id),
      (ustr ''License Start Date'', strftime license_start),
      (ustr ''File Type'', ustr ''Audit Report''),
      (ustr ''Filename'', filename)]"

text \<open>The body of the inner \<^verbatim>\<open>try\<close> for the element at position \<open>j\<close> of \<^verbatim>\<open>enumerate\<close>.\<close>

definition download_body :: "str \<Rightarrow> timestamp \<Rightarrow> nat \<Rightarrow> attempt \<Rightarrow> step" where
  "download_body prisma_id license_start j a =
     (case a of
        NoDownload e \<Rightarrow> block [call (\<lambda>_. Some e) (ClickElement j)]
      | Download suggested_filename outcome \<Rightarrow>
          (let filename = audit_filename prisma_id license_start j;
               save_path = os_path_join DOWNLOADS_DIR filename
           in block [call (\<lambda>_. None) (ClickElement j),
                     save_as outcome save_path,
                     print (Saved save_path),
                     append_log (log_entry prisma_id license_start filename)]))"

definition download_one :: "str \<Rightarrow> timestamp \<Rightarrow> nat \<Rightarrow> attempt \<Rightarrow> step" where
  "download_one prisma_id license_start j a =
     try_except (download_body prisma_id license_start j a)
                (\<lambda>e. print (DownloadFailed prisma_id e))"

fun download_loop :: "str \<Rightarrow> timestamp \<Rightarrow> nat \<Rightarrow> attempt list \<Rightarrow> step" where
  "download_loop prisma_id license_start j [] = skip"
| "download_loop prisma_id license_start j (a # rest) =
     seq (download_one prisma_id license_start j a)
         (download_loop prisma_id license_start (j + 1) rest)"

section \<open>The record loop (lines 98 to 168)\<close>

text \<open>The body of the outer \<^verbatim>\<open>try\<close> (lines 107 to 164); \<^verbatim>\<open>continue\<close> ends it.\<close>

definition locate_and_download :: "page \<Rightarrow> str \<Rightarrow> timestamp \<Rightarrow> step" where
  "locate_and_download pg prisma_id license_start =
     block [call (raises pg) WaitSearch, call (raises pg) QuerySearch,
       if \<not> search_box pg then print (SearchBarNotFound prisma_id)
       else block [call (raises pg) ClickSearch, call (raises pg) FillSearch,
         call (raises pg) (TypeSearch prisma_id), call (raises pg) PressEnter,
         call (raises pg) Blur, call (raises pg) SettleSearch, call (raises pg) QueryRows,
         case rows pg of
           [] \<Rightarrow> print (NoSearchResults prisma_id)
         | first_row_cells # _ \<Rightarrow>
             block [call (raises pg) QueryCells,
               if length first_row_cells < 6 then print (UnexpectedRowFormat prisma_id)
               else block [call (raises pg) InnerText,
                 print (PoId (strip (first_row_cells ! 5))),
                 if strip (first_row_cells ! 5) \<noteq> prisma_id then print (Mismatch prisma_id)
                 else block [call (raises pg) ClickRow, call (raises pg) SettleDetail,
                   call (raises pg) QueryElements,
                   if elements pg = [] then print (NoAuditReports prisma_id)
                   else download_loop prisma_id license_start 0 (elements pg)]]]]]"

text \<open>The body of the \<^verbatim>\<open>for\<close> loop over \<^verbatim>\<open>target_records\<close>.\<close>

definition process_row :: "target_row \<Rightarrow> page \<Rightarrow> step" where
  "process_row r pg =
     (let prisma_id = strip (account_id r); license_start = start_date r
      in block [print (Searching prisma_id),
                call (raises pg) Goto,
                call (raises pg) WaitGrid,
                try_except (locate_and_download pg prisma_id license_start)
                           (\<lambda>e. print (ErrorProcessing prisma_id e))])"

fun records_loop :: "(target_row \<times> page) list \<Rightarrow> step" where
  "records_loop [] = skip"
| "records_loop ((r, pg) # rest) = seq (process_row r pg) (records_loop rest)"

section \<open>The download log (lines 172 to 176)\<close>

text \<open>
  \<^verbatim>\<open>pd.DataFrame\<close> of a list of dictionaries: the columns are the keys in the order of
  their first appearance, and each dictionary gives one row, a missing key an empty cell.
  \<^verbatim>\<open>to_csv(index=False)\<close> writes the line of column names, then the rows.
\<close>

record dataframe =
  columns :: "str list"
  data :: "str option list list"

definition add_key :: "str list \<Rightarrow> str \<Rightarrow> str list" where
  "add_key ks k = (if k \<in> set ks then ks else ks @ [k])"

definition DataFrame :: "entry list \<Rightarrow> dataframe" where
  "DataFrame ds =
     (let cs = foldl add_key [] (concat (map (map fst) ds))
      in \<lparr>columns = cs, data = map (\<lambda>d. map (map_of d) cs) ds\<rparr>)"

definition to_csv :: "dataframe \<Rightarrow> str option list list" where
  "to_csv df = map Some (columns df) # data df"

definition write_log :: step where
  "write_log s =
     (let df_log = DataFrame (download_log s);
          log_path = os_path_join DOWNLOADS_DIR (ustr ''download_log.csv'')
      in print (LogSaved log_path) (s\<lparr>log_csv := Some (to_csv df_log)\<rparr>))"

section \<open>The main function (lines 92 to 176)\<close>

text \<open>
  \<open>session\<close> says which of the session's calls raise; each record comes with what the
  site shows while it is visited.
\<close>

definition download_audit_reports :: "(call \<Rightarrow> exn option) \<Rightarrow> (target_row \<times> page) list \<Rightarrow> step" where
  "download_audit_reports session recs =
     block [call session StartPlaywright, call session Launch, call session NewContext,
            call session NewPage,
            records_loop recs,
            call session CloseBrowser,
            write_log]"

section \<open>Vocabulary of the statements\<close>

text \<open>
  The exception that keeps an attempt from being saved, if any; an attempt is catchable
  when that exception, if there is one, is caught by \<^verbatim>\<open>except Exception\<close>.
\<close>

definition failure :: "attempt \<Rightarrow> exn option" where
  "failure a = (case a of NoDownload e \<Rightarrow> Some e | Download _ outcome \<Rightarrow> outcome)"

definition catchable :: "attempt \<Rightarrow> bool" where
  "catchable a = (case failure a of None \<Rightarrow> True | Some e \<Rightarrow> is_Exception e)"

text \<open>
  For a pair of \<^verbatim>\<open>enumerate(elements)\<close>: whether its save completes, the calls the
  attempt makes, and the line it prints when no interrupt occurs.
\<close>

definition saved :: "nat \<times> attempt \<Rightarrow> bool" where
  "saved ja = (failure (snd ja) = None)"

definition attempt_calls :: "str \<Rightarrow> timestamp \<Rightarrow> nat \<times> attempt \<Rightarrow> call list" where
  "attempt_calls pid ls ja =
     (case snd ja of
        NoDownload _ \<Rightarrow> [ClickElement (fst ja)]
      | Download _ _ \<Rightarrow> [ClickElement (fst ja),
                          SaveAs (os_path_join DOWNLOADS_DIR (audit_filename pid ls (fst ja)))])"

definition attempt_line :: "str \<Rightarrow> timestamp \<Rightarrow> nat \<times> attempt \<Rightarrow> line" where
  "attempt_line pid ls ja =
     (case failure (snd ja) of
        None \<Rightarrow> Saved (os_path_join DOWNLOADS_DIR (audit_filename pid ls (fst ja)))
      | Some e \<Rightarrow> DownloadFailed pid e)"

text \<open>The path under which the file of a log entry was saved.\<close>

definition saved_path :: "entry \<Rightarrow> str option" where
  "saved_path e = map_option (os_path_join DOWNLOADS_DIR) (map_of e (ustr ''Filename''))"

text \<open>What identifies a target record in the names of its files: stripped id and day.\<close>

definition record_key :: "target_row \<Rightarrow> str \<times> str" where
  "record_key r = (strip (account_id r), strftime (start_date r))"

text \<open>
  A statement preserves a property of the state, whether it returns or raises; and it
  raises only exceptions of a given kind.
\<close>

definition preserves :: "(state \<Rightarrow> bool) \<Rightarrow> step \<Rightarrow> bool" where
  "preserves I f = (\<forall>s. I s \<longrightarrow> I (snd (f s)))"

definition raises_only :: "(exn \<Rightarrow> bool) \<Rightarrow> step \<Rightarrow> bool" where
  "raises_only E f = (\<forall>s e. fst (f s) = Some e \<longrightarrow> E e)"

section \<open>Unfolding statements\<close>

lemmas step_defs = skip_def seq_def try_except_def print_def call_def save_as_def append_log_def

lemmas run_defs = download_audit_reports_def process_row_def locate_and_download_def
  download_one_def download_body_def audit_filename_def log_entry_def write_log_def
  Let_def step_defs init_def

lemmas string_defs = ustr_def strip_def isspace_def strftime_def zfill_def str_nat.simps digit_char_def
  os_path_join_def DOWNLOADS_DIR_def

section \<open>Lemmas\<close>

subsection \<open>Invariants\<close>

lemma preserves_skip: "preserves I skip"
  by (simp add: preserves_def skip_def)

lemma preserves_seq: "preserves I f \<Longrightarrow> preserves I g \<Longrightarrow> preserves I (seq f g)"
  by (auto simp: preserves_def seq_def split: prod.splits option.splits)

lemma preserves_block_Nil: "preserves I (block [])"
  by (simp add: preserves_skip)

lemma preserves_block_Cons:
  "preserves I f \<Longrightarrow> preserves I (block fs) \<Longrightarrow> preserves I (block (f # fs))"
  by (simp add: preserves_seq)

lemma preserves_try_except:
  "preserves I body \<Longrightarrow> (\<And>e. preserves I (handler e)) \<Longrightarrow> preserves I (try_except body handler)"
  by (auto simp: preserves_def try_except_def split: prod.splits option.splits)

lemma preserves_if:
  "(c \<Longrightarrow> preserves I f) \<Longrightarrow> (\<not> c \<Longrightarrow> preserves I g) \<Longrightarrow> preserves I (if c then f else g)"
  by simp

lemma preserves_case_list:
  "(xs = [] \<Longrightarrow> preserves I f) \<Longrightarrow> (\<And>y ys. xs = y # ys \<Longrightarrow> preserves I (g y ys))
   \<Longrightarrow> preserves I (case xs of [] \<Rightarrow> f | y # ys \<Rightarrow> g y ys)"
  by (cases xs) simp_all

lemma preserves_print: "(\<And>s c. I (s\<lparr>console := c\<rparr>) = I s) \<Longrightarrow> preserves I (print l)"
  by (simp add: preserves_def print_def)

lemma preserves_call: "(\<And>s c. I (s\<lparr>page_calls := c\<rparr>) = I s) \<Longrightarrow> preserves I (call rs c)"
  by (simp add: preserves_def call_def)

lemmas preserves_intros = preserves_skip preserves_seq preserves_block_Nil preserves_block_Cons
  preserves_try_except preserves_if preserves_case_list preserves_print preserves_call

lemma preserves_download_loop:
  assumes "\<And>j. j < length atts \<Longrightarrow> preserves I (download_one pid ls j (atts ! j))"
  shows "preserves I (download_loop pid ls 0 atts)"
proof -
  have "preserves I (download_loop pid ls j (drop j atts))" for j
  proof (induction "length atts - j" arbitrary: j)
    case 0
    then show ?case by (simp add: preserves_skip)
  next
    case (Suc n)
    then have j: "j < length atts" by simp
    then have d: "drop j atts = atts ! j # drop (Suc j) atts"
      by (simp add: Cons_nth_drop_Suc)
    from Suc have "preserves I (download_loop pid ls (Suc j) (drop (Suc j) atts))"
      by simp
    with assms [OF j] show ?case
      by (simp add: d preserves_seq)
  qed
  from this [of 0] show ?thesis by simp
qed

lemma preserves_locate_and_download:
  assumes "\<And>s c. I (s\<lparr>console := c\<rparr>) = I s" and "\<And>s c. I (s\<lparr>page_calls := c\<rparr>) = I s"
      and "\<And>j. j < length (elements pg) \<Longrightarrow> preserves I (download_one pid ls j (elements pg ! j))"
  shows "preserves I (locate_and_download pg pid ls)"
  unfolding locate_and_download_def
  by (intro preserves_intros preserves_download_loop assms)

lemma preserves_process_row:
  assumes "\<And>s c. I (s\<lparr>console := c\<rparr>) = I s" and "\<And>s c. I (s\<lparr>page_calls := c\<rparr>) = I s"
      and "\<And>j. j < length (elements pg) \<Longrightarrow>
             preserves I (download_one (strip (account_id r)) (start_date r) j (elements pg ! j))"
  shows "preserves I (process_row r pg)"
  unfolding process_row_def Let_def
  by (intro preserves_intros preserves_locate_and_download assms)

lemma preserves_records_loop:
  assumes "\<And>s c. I (s\<lparr>console := c\<rparr>) = I s" and "\<And>s c. I (s\<lparr>page_calls := c\<rparr>) = I s"
      and "\<And>r pg j. (r, pg) \<in> set recs \<Longrightarrow> j < length (elements pg) \<Longrightarrow>
             preserves I (download_one (strip (account_id r)) (start_date r) j (elements pg ! j))"
  shows "preserves I (records_loop recs)"
  using assms(3)
proof (induction recs)
  case Nil
  then show ?case by (simp add: preserves_skip)
next
  case (Cons x recs)
  obtain r pg where x: "x = (r, pg)" by (cases x)
  have "preserves I (process_row r pg)"
    using assms(1,2) by (rule preserves_process_row [where I = I]) (simp add: Cons.prems x)
  moreover have "preserves I (records_loop recs)"
    by (rule Cons.IH) (simp add: Cons.prems)
  ultimately show ?case
    by (simp add: x preserves_seq)
qed

subsection \<open>One attachment\<close>

lemma filename_of_log_entry: "map_of (log_entry pid ls fn) (ustr ''Filename'') = Some fn"
  by (simp add: log_entry_def ustr_def)

lemma download_one_saved:
  "download_one pid ls j (Download n None) s =
     (None, s\<lparr>page_calls := page_calls s @ [ClickElement j,
                  SaveAs (os_path_join DOWNLOADS_DIR (audit_filename pid ls j))],
               files := files s @ [os_path_join DOWNLOADS_DIR (audit_filename pid ls j)],
               console := console s @ [Saved (os_path_join DOWNLOADS_DIR (audit_filename pid ls j))],
               download_log := download_log s @ [log_entry pid ls (audit_filename pid ls j)]\<rparr>)"
  by (simp add: download_one_def download_body_def Let_def step_defs)

lemma download_one_failed:
  assumes "failure a = Some e"
  shows "download_log (snd (download_one pid ls j a s)) = download_log s"
    and "files (snd (download_one pid ls j a s)) = files s"
    and "log_csv (snd (download_one pid ls j a s)) = log_csv s"
    and "is_Exception e \<Longrightarrow> fst (download_one pid ls j a s) = None"
    and "is_Exception e \<Longrightarrow>
           console (snd (download_one pid ls j a s)) = console s @ [DownloadFailed pid e]"
    and "\<not> is_Exception e \<Longrightarrow> fst (download_one pid ls j a s) = Some e"
  using assms
  by (cases a; simp add: failure_def download_one_def download_body_def Let_def step_defs)+

lemma failure_None: "failure a = None \<longleftrightarrow> (\<exists>n. a = Download n None)"
  by (cases a) (simp_all add: failure_def)

lemma download_one_log:
  "download_log (snd (download_one pid ls j a s)) =
     download_log s @ (if failure a = None then [log_entry pid ls (audit_filename pid ls j)] else [])"
  by (cases "failure a") (auto simp: failure_None download_one_saved download_one_failed)

lemma download_one_files:
  "files (snd (download_one pid ls j a s)) =
     files s @ (if failure a = None then [os_path_join DOWNLOADS_DIR (audit_filename pid ls j)] else [])"
  by (cases "failure a") (auto simp: failure_None download_one_saved download_one_failed)

lemma download_one_log_csv: "log_csv (snd (download_one pid ls j a s)) = log_csv s"
  by (cases "failure a") (auto simp: failure_None download_one_saved download_one_failed)

subsection \<open>Invariants of the whole run\<close>

lemma run_invariant:
  assumes "\<And>s c. I (s\<lparr>console := c\<rparr>) = I s" and "\<And>s c. I (s\<lparr>page_calls := c\<rparr>) = I s"
      and "\<And>s c. I (s\<lparr>log_csv := c\<rparr>) = I s"
      and "\<And>r pg j. (r, pg) \<in> set recs \<Longrightarrow> j < length (elements pg) \<Longrightarrow>
             preserves I (download_one (strip (account_id r)) (start_date r) j (elements pg ! j))"
  shows "preserves I (download_audit_reports session recs)"
proof -
  have "preserves I (records_loop recs)"
    using assms(1,2) by (rule preserves_records_loop [where I = I]) (rule assms(4))
  moreover have "preserves I write_log"
    by (simp add: preserves_def write_log_def Let_def print_def assms(1,3))
  ultimately show ?thesis
    unfolding download_audit_reports_def
    by (intro preserves_intros assms(1,2))
qed

subsection \<open>The log file\<close>

lemma records_loop_log_csv: "log_csv (snd (records_loop recs s)) = log_csv s"
proof -
  have "preserves (\<lambda>t. log_csv t = log_csv s) (records_loop recs)"
    by (rule preserves_records_loop) (simp_all add: preserves_def download_one_log_csv)
  then show ?thesis by (simp add: preserves_def)
qed

lemma run_cases:
  "download_audit_reports session recs s =
     (if session StartPlaywright \<noteq> None
      then (session StartPlaywright, s\<lparr>page_calls := page_calls s @ [StartPlaywright]\<rparr>)
      else if session Launch \<noteq> None
      then (session Launch, s\<lparr>page_calls := page_calls s @ [StartPlaywright, Launch]\<rparr>)
      else if session NewContext \<noteq> None
      then (session NewContext,
            s\<lparr>page_calls := page_calls s @ [StartPlaywright, Launch, NewContext]\<rparr>)
      else if session NewPage \<noteq> None
      then (session NewPage,
            s\<lparr>page_calls := page_calls s @ [StartPlaywright, Launch, NewContext, NewPage]\<rparr>)
      else seq (records_loop recs) (seq (call session CloseBrowser) write_log)
             (s\<lparr>page_calls := page_calls s @ [StartPlaywright, Launch, NewContext, NewPage]\<rparr>))"
  by (auto simp: download_audit_reports_def seq_def call_def skip_def split: prod.splits option.splits)

lemma run_log_csv:
  "log_csv (snd (download_audit_reports session recs s)) =
     (if fst (download_audit_reports session recs s) = None
      then Some (to_csv (DataFrame (download_log (snd (download_audit_reports session recs s)))))
      else log_csv s)"
proof -
  let ?s4 = "s\<lparr>page_calls := page_calls s @ [StartPlaywright, Launch, NewContext, NewPage]\<rparr>"
  obtain x s5 where r: "records_loop recs ?s4 = (x, s5)"
    by (cases "records_loop recs ?s4")
  have "log_csv s5 = log_csv s"
    using records_loop_log_csv [of recs ?s4] by (simp add: r)
  then show ?thesis
    by (cases x; cases "session CloseBrowser")
       (auto simp: run_cases r seq_def call_def write_log_def print_def Let_def)
qed

lemma foldl_add_key_known: "set ks \<subseteq> set acc \<Longrightarrow> foldl add_key acc ks = acc"
  by (induction ks arbitrary: acc) (simp_all add: add_key_def)

lemma DataFrame_log_entries:
  assumes "\<forall>d \<in> set ds. \<exists>pid ls fn. d = log_entry pid ls fn"
  shows "DataFrame ds =
           \<lparr>columns = (if ds = [] then []
                        else [ustr ''Prisma ID'', ustr ''License Start Date'', ustr ''File Type'', ustr ''Filename'']),
            data = map (map (Some \<circ> snd)) ds\<rparr>"
proof (cases ds)
  case Nil
  then show ?thesis by (simp add: DataFrame_def)
next
  case (Cons d ds')
  let ?K = "[ustr ''Prisma ID'', ustr ''License Start Date'', ustr ''File Type'', ustr ''Filename'']"
  have K: "distinct ?K"
    by (simp add: ustr_def)
  have keys: "map fst e = ?K" if "e \<in> set ds" for e
    using assms that by (auto simp: log_entry_def)
  have "set (concat (map (map fst) ds')) \<subseteq> set ?K"
  proof
    fix k
    assume "k \<in> set (concat (map (map fst) ds'))"
    then obtain e where e: "e \<in> set ds'" and k: "k \<in> fst ` set e"
      by auto
    have "fst ` set e = set (map fst e)"
      by simp
    also have "map fst e = ?K"
      using keys e Cons by simp
    finally show "k \<in> set ?K"
      using k by simp
  qed
  then have "foldl add_key ?K (concat (map (map fst) ds')) = ?K"
    by (rule foldl_add_key_known)
  moreover have "foldl add_key [] ?K = ?K"
    using K by (auto simp: add_key_def)
  moreover have "map fst d = ?K"
    using keys Cons by simp
  ultimately have cols: "foldl add_key [] (concat (map (map fst) ds)) = ?K"
    by (simp add: Cons)
  have "map (map_of e) ?K = map (Some \<circ> snd) e" if "e \<in> set ds" for e
    using assms that K by (auto simp: log_entry_def)
  then have "map (\<lambda>e. map (map_of e) ?K) ds = map (map (Some \<circ> snd)) ds"
    by simp
  with cols show ?thesis
    by (simp add: DataFrame_def Cons)
qed

lemma run_log_entries:
  "\<forall>d \<in> set (download_log (snd (download_audit_reports session recs init))).
      \<exists>pid ls fn. d = log_entry pid ls fn"
proof -
  let ?I = "\<lambda>s. \<forall>d \<in> set (download_log s). \<exists>pid ls fn. d = log_entry pid ls fn"
  have "preserves ?I (download_audit_reports session recs)"
    by (rule run_invariant) (auto simp: preserves_def download_one_log)
  moreover have "?I init" by (simp add: init_def)
  ultimately show ?thesis
    unfolding preserves_def by blast
qed

lemma write_log_returns: "fst (write_log s) = None"
  by (simp add: write_log_def Let_def print_def)

subsection \<open>The attachment loop without interrupts\<close>

lemma download_one_catchable:
  assumes "catchable a"
  shows "download_one pid ls j a s =
     (None, s\<lparr>download_log := download_log s
                  @ map (\<lambda>ja. log_entry pid ls (audit_filename pid ls (fst ja))) (filter saved [(j, a)]),
               files := files s
                  @ map (\<lambda>ja. os_path_join DOWNLOADS_DIR (audit_filename pid ls (fst ja)))
                      (filter saved [(j, a)]),
               console := console s @ [attempt_line pid ls (j, a)],
               page_calls := page_calls s @ attempt_calls pid ls (j, a)\<rparr>)"
proof (cases a)
  case (NoDownload e)
  with assms show ?thesis
    by (simp add: catchable_def failure_def saved_def attempt_line_def attempt_calls_def
          download_one_def download_body_def step_defs)
next
  case (Download n outcome)
  with assms show ?thesis
    by (cases outcome)
       (simp_all add: catchable_def failure_def saved_def attempt_line_def attempt_calls_def
          download_one_def download_body_def step_defs Let_def)
qed

lemma download_loop_catchable:
  assumes "\<forall>a \<in> set atts. catchable a"
  shows "download_loop pid ls j atts s =
     (None, s\<lparr>download_log := download_log s
                  @ map (\<lambda>ja. log_entry pid ls (audit_filename pid ls (fst ja)))
                      (filter saved (enumerate j atts)),
               files := files s
                  @ map (\<lambda>ja. os_path_join DOWNLOADS_DIR (audit_filename pid ls (fst ja)))
                      (filter saved (enumerate j atts)),
               console := console s @ map (attempt_line pid ls) (enumerate j atts),
               page_calls := page_calls s @ concat (map (attempt_calls pid ls) (enumerate j atts))\<rparr>)"
  using assms
proof (induction atts arbitrary: j s)
  case Nil
  then show ?case by (simp add: skip_def)
next
  case (Cons a atts)
  then have a: "catchable a" and rest: "\<forall>a \<in> set atts. catchable a"
    by simp_all
  show ?case
    by (simp add: seq_def download_one_catchable [OF a] Cons.IH [OF rest])
qed

lemma seq_assoc: "seq (seq f g) h = seq f (seq g h)"
  by (rule ext) (simp add: seq_def split: prod.splits option.splits)

lemma seq_skip: "seq skip f = f"
  by (rule ext) (simp add: seq_def skip_def)

lemma download_loop_append:
  "download_loop pid ls j (xs @ ys) =
     seq (download_loop pid ls j xs) (download_loop pid ls (j + length xs) ys)"
  by (induction xs arbitrary: j) (simp_all add: seq_skip seq_assoc)

lemma download_one_grows:
  "prefix (download_log s) (download_log (snd (download_one pid ls j a s)))"
  "\<exists>cs. page_calls (snd (download_one pid ls j a s)) = page_calls s @ ClickElement j # cs"
  by (simp add: download_one_log)
     (cases a; cases "failure a";
      auto simp: failure_def download_one_def download_body_def step_defs Let_def
           split: option.splits)

lemma download_loop_grows:
  "prefix (download_log s) (download_log (snd (download_loop pid ls j atts s)))
   \<and> prefix (page_calls s) (page_calls (snd (download_loop pid ls j atts s)))"
proof (induction atts arbitrary: j s)
  case Nil
  then show ?case by (simp add: skip_def)
next
  case (Cons a atts)
  obtain x s1 where one: "download_one pid ls j a s = (x, s1)"
    by (cases "download_one pid ls j a s")
  have 1: "prefix (download_log s) (download_log s1)" "prefix (page_calls s) (page_calls s1)"
    using download_one_grows [where s = s and pid = pid and ls = ls and j = j and a = a]
    by (auto simp: one)
  show ?case
  proof (cases x)
    case None
    with 1 Cons.IH [where j = "j + 1" and s = s1] show ?thesis
      by (auto simp: seq_def one intro: prefix_order.trans)
  next
    case (Some e)
    with 1 show ?thesis
      by (simp add: seq_def one)
  qed
qed

subsection \<open>White space\<close>

lemma strip_unicode_space:
  "strip (ustr ''PRSM-100'' @ [0xA0]) = ustr ''PRSM-100''"
  "strip ([0x85, 0x2003] @ ustr '' PRSM 100'' @ [0x3000, 0x0A]) = ustr ''PRSM 100''"
  by (simp_all add: strip_def isspace_def ustr_def)

subsection \<open>File names\<close>

text \<open>The underscore is the code point 95.\<close>

lemma digit_char_no_underscore: "d < 10 \<Longrightarrow> digit_char d \<noteq> 95"
  by (simp add: digit_char_def)

lemma no_underscore_str_nat: "95 \<notin> set (str_nat n)"
proof (induction n rule: str_nat.induct)
  case (1 n)
  show ?case
  proof (cases "n < 10")
    case True
    then show ?thesis
      using digit_char_no_underscore [of n] by (subst str_nat.simps) auto
  next
    case False
    then show ?thesis
      using 1 digit_char_no_underscore [of "n mod 10"]
      by (subst str_nat.simps) auto
  qed
qed

lemma str_nat_value: "foldl (\<lambda>a c. 10 * a + (c - 48)) 0 (str_nat n) = n"
proof (induction n rule: str_nat.induct)
  case (1 n)
  show ?case
  proof (cases "n < 10")
    case True
    then show ?thesis
      by (subst str_nat.simps) (simp add: digit_char_def)
  next
    case False
    then show ?thesis
      using 1 by (subst str_nat.simps) (simp add: digit_char_def)
  qed
qed

lemma str_nat_inj:
  assumes "str_nat m = str_nat n"
  shows "m = n"
proof -
  have "m = foldl (\<lambda>a c. 10 * a + (c - 48)) 0 (str_nat m)"
    by (simp only: str_nat_value)
  also have "\<dots> = foldl (\<lambda>a c. 10 * a + (c - 48)) 0 (str_nat n)"
    by (simp only: assms)
  also have "\<dots> = n"
    by (simp only: str_nat_value)
  finally show ?thesis .
qed

lemma no_underscore_strftime: "95 \<notin> set (strftime t)"
  by (simp add: strftime_def zfill_def ustr_def no_underscore_str_nat)

lemma takeWhile_until: "c \<notin> set xs \<Longrightarrow> takeWhile (\<lambda>x. x \<noteq> c) (xs @ c # ys) = xs"
  by (induction xs) auto

lemma split_at_first:
  assumes "xs @ c # ys = xs' @ c # ys'" and "c \<notin> set xs" and "c \<notin> set xs'"
  shows "xs = xs' \<and> ys = ys'"
proof -
  have "takeWhile (\<lambda>x. x \<noteq> c) (xs @ c # ys) = xs"
    using assms(2) by (rule takeWhile_until)
  moreover have "takeWhile (\<lambda>x. x \<noteq> c) (xs' @ c # ys') = xs'"
    using assms(3) by (rule takeWhile_until)
  ultimately have "xs = xs'"
    using assms(1) by simp
  with assms(1) show ?thesis by simp
qed

lemma split_at_last:
  assumes "xs @ c # ys = xs' @ c # ys'" and "c \<notin> set ys" and "c \<notin> set ys'"
  shows "xs = xs' \<and> ys = ys'"
proof -
  from assms(1) have "rev (xs @ c # ys) = rev (xs' @ c # ys')"
    by simp
  then have "rev ys @ c # rev xs = rev ys' @ c # rev xs'"
    by simp
  moreover have "c \<notin> set (rev ys)" "c \<notin> set (rev ys')"
    using assms(2,3) by simp_all
  ultimately have "rev ys = rev ys' \<and> rev xs = rev xs'"
    by (rule split_at_first)
  then show ?thesis by simp
qed

lemma audit_filename_inj:
  assumes "audit_filename pid ls j = audit_filename pid' ls' j'"
  shows "pid = pid' \<and> strftime ls = strftime ls' \<and> j = j'"
proof -
  from assms have "(pid @ ustr ''_'' @ strftime ls @ ustr ''_audit'') @ 95 # str_nat (j + 1)
      = (pid' @ ustr ''_'' @ strftime ls' @ ustr ''_audit'') @ 95 # str_nat (j' + 1)"
    by (simp add: audit_filename_def ustr_def)
  from split_at_last [OF this no_underscore_str_nat no_underscore_str_nat]
  have 1: "pid @ ustr ''_'' @ strftime ls @ ustr ''_audit'' = pid' @ ustr ''_'' @ strftime ls' @ ustr ''_audit''"
    and 2: "str_nat (j + 1) = str_nat (j' + 1)"
    by simp_all
  from 1 have "pid @ 95 # strftime ls = pid' @ 95 # strftime ls'"
    by (simp add: ustr_def)
  from split_at_last [OF this no_underscore_strftime no_underscore_strftime]
  have "pid = pid' \<and> strftime ls = strftime ls'" .
  moreover from 2 have "j = j'"
    using str_nat_inj [of "j + 1" "j' + 1"] by simp
  ultimately show ?thesis by simp
qed

subsection \<open>Entries of one record and of the run\<close>

lemma download_loop_log:
  "\<exists>ks. sorted_wrt (<) ks \<and> (\<forall>k \<in> set ks. j \<le> k)
      \<and> download_log (snd (download_loop pid ls j atts s))
          = download_log s @ map (\<lambda>k. log_entry pid ls (audit_filename pid ls k)) ks"
proof (induction atts arbitrary: j s)
  case Nil
  show ?case
    by (rule exI [of _ "[]"]) (simp add: skip_def)
next
  case (Cons a atts)
  let ?E = "\<lambda>k. log_entry pid ls (audit_filename pid ls k)"
  obtain x s1 where one: "download_one pid ls j a s = (x, s1)"
    by (cases "download_one pid ls j a s")
  have log1: "download_log s1 = download_log s @ (if failure a = None then [?E j] else [])"
    using download_one_log [of pid ls j a s] by (simp add: one)
  show ?case
  proof (cases x)
    case (Some e)
    show ?thesis
      by (rule exI [of _ "if failure a = None then [j] else []"])
         (simp add: seq_def one Some log1)
  next
    case None
    from Cons.IH [where j = "Suc j" and s = s1] obtain ks
      where ks: "sorted_wrt (<) ks" "\<forall>k \<in> set ks. Suc j \<le> k"
        and log: "download_log (snd (download_loop pid ls (Suc j) atts s1))
                    = download_log s1 @ map ?E ks"
      by blast
    show ?thesis
      by (rule exI [of _ "(if failure a = None then [j] else []) @ ks"])
         (use ks in \<open>auto simp: seq_def one None log log1 sorted_wrt_append\<close>)
  qed
qed

lemma process_row_reaches:
  "download_log (snd (process_row r pg s)) = download_log s
   \<or> download_log (snd (process_row r pg s))
        = download_log (snd (download_loop (strip (account_id r)) (start_date r) 0 (elements pg)
            (s\<lparr>console := console s @ [Searching (strip (account_id r)),
                                         PoId (strip (account_id r))],
                page_calls := page_calls s @ [Goto, WaitGrid, WaitSearch, QuerySearch,
                  ClickSearch, FillSearch, TypeSearch (strip (account_id r)), PressEnter,
                  Blur, SettleSearch, QueryRows, QueryCells, InnerText, ClickRow,
                  SettleDetail, QueryElements]\<rparr>)))"
  by (auto simp: process_row_def locate_and_download_def Let_def step_defs
           split: option.splits list.splits prod.splits)

lemma process_row_log:
  "\<exists>ks. distinct ks
      \<and> download_log (snd (process_row r pg s))
          = download_log s @ map (\<lambda>k. log_entry (strip (account_id r)) (start_date r)
                                       (audit_filename (strip (account_id r)) (start_date r) k)) ks"
proof -
  let ?E = "\<lambda>k. log_entry (strip (account_id r)) (start_date r)
                  (audit_filename (strip (account_id r)) (start_date r) k)"
  let ?t = "s\<lparr>console := console s @ [Searching (strip (account_id r)),
                                         PoId (strip (account_id r))],
                page_calls := page_calls s @ [Goto, WaitGrid, WaitSearch, QuerySearch,
                  ClickSearch, FillSearch, TypeSearch (strip (account_id r)), PressEnter,
                  Blur, SettleSearch, QueryRows, QueryCells, InnerText, ClickRow,
                  SettleDetail, QueryElements]\<rparr>"
  from process_row_reaches [of r pg s] show ?thesis
  proof
    assume "download_log (snd (process_row r pg s)) = download_log s"
    then show ?thesis
      by (intro exI [of _ "[]"]) simp
  next
    assume p: "download_log (snd (process_row r pg s))
        = download_log (snd (download_loop (strip (account_id r)) (start_date r) 0 (elements pg) ?t))"
    from download_loop_log [of 0 "strip (account_id r)" "start_date r" "elements pg" ?t]
    obtain ks where sorted: "sorted_wrt (<) ks"
      and "download_log (snd (download_loop (strip (account_id r)) (start_date r) 0
                                     (elements pg) ?t)) = download_log ?t @ map ?E ks"
      by blast
    moreover from sorted have "distinct ks"
      by (simp add: strict_sorted_iff)
    ultimately show ?thesis
      by (intro exI [of _ ks]) (simp add: p)
  qed
qed

lemma records_loop_distinct:
  assumes "distinct (map (\<lambda>x. record_key (fst x)) recs)"
      and "distinct (map (\<lambda>e. map_of e (ustr ''Filename'')) (download_log s))"
      and "\<forall>e \<in> set (download_log s). \<exists>pid ls k. e = log_entry pid ls (audit_filename pid ls k)
              \<and> (pid, strftime ls) \<notin> set (map (\<lambda>x. record_key (fst x)) recs)"
  shows "distinct (map (\<lambda>e. map_of e (ustr ''Filename'')) (download_log (snd (records_loop recs s))))"
  using assms
proof (induction recs arbitrary: s)
  case Nil
  then show ?case by (simp add: skip_def)
next
  case (Cons x recs)
  obtain r pg where x: "x = (r, pg)" by (cases x)
  let ?F = "\<lambda>e. map_of e (ustr ''Filename'')"
  let ?E = "\<lambda>k. log_entry (strip (account_id r)) (start_date r)
                  (audit_filename (strip (account_id r)) (start_date r) k)"
  obtain y s1 where row: "process_row r pg s = (y, s1)"
    by (cases "process_row r pg s")
  from process_row_log [of r pg s] obtain ks
    where ks: "distinct ks" and log1: "download_log s1 = download_log s @ map ?E ks"
    by (auto simp: row)
  have key: "record_key r \<notin> set (map (\<lambda>x. record_key (fst x)) recs)"
    and rest: "distinct (map (\<lambda>x. record_key (fst x)) recs)"
    using Cons.prems(1) by (simp_all add: x)
  have new: "distinct (map ?F (map ?E ks))"
    using ks by (auto simp: distinct_map filename_of_log_entry inj_on_def dest: audit_filename_inj)
  have apart: "?F e \<noteq> ?F (?E k)" if "e \<in> set (download_log s)" for e k
  proof
    assume eq: "?F e = ?F (?E k)"
    from Cons.prems(3) that obtain pid ls k'
      where e: "e = log_entry pid ls (audit_filename pid ls k')"
        and "(pid, strftime ls) \<notin> set (map (\<lambda>x. record_key (fst x)) (x # recs))"
      by blast
    then have "(pid, strftime ls) \<noteq> record_key r"
      by (simp add: x)
    moreover from eq have "audit_filename pid ls k'
        = audit_filename (strip (account_id r)) (start_date r) k"
      by (simp add: e filename_of_log_entry)
    then have "(pid, strftime ls) = record_key r"
      by (auto simp: record_key_def dest: audit_filename_inj)
    ultimately show False by simp
  qed
  have d1: "distinct (map ?F (download_log s1))"
    using Cons.prems(2) new apart by (auto simp: log1)
  have k1: "\<forall>e \<in> set (download_log s1). \<exists>pid ls k. e = log_entry pid ls (audit_filename pid ls k)
              \<and> (pid, strftime ls) \<notin> set (map (\<lambda>x. record_key (fst x)) recs)"
  proof
    fix e
    assume "e \<in> set (download_log s1)"
    then consider "e \<in> set (download_log s)" | k where "e = ?E k"
      by (auto simp: log1)
    then show "\<exists>pid ls k. e = log_entry pid ls (audit_filename pid ls k)
              \<and> (pid, strftime ls) \<notin> set (map (\<lambda>x. record_key (fst x)) recs)"
    proof cases
      case 1
      with Cons.prems(3) show ?thesis
        by (fastforce simp: x)
    next
      case 2
      with key show ?thesis
        unfolding record_key_def by blast
    qed
  qed
  show ?case
  proof (cases y)
    case None
    with Cons.IH [OF rest d1 k1] show ?thesis
      by (simp add: x seq_def row)
  next
    case (Some e)
    with d1 show ?thesis
      by (simp add: x seq_def row)
  qed
qed

lemma run_distinct:
  assumes "distinct (map (\<lambda>x. record_key (fst x)) recs)"
  shows "distinct (map (\<lambda>e. map_of e (ustr ''Filename''))
           (download_log (snd (download_audit_reports session recs init))))"
proof -
  let ?s4 = "init\<lparr>page_calls := page_calls init @ [StartPlaywright, Launch, NewContext, NewPage]\<rparr>"
  obtain x s5 where r: "records_loop recs ?s4 = (x, s5)"
    by (cases "records_loop recs ?s4")
  have "distinct (map (\<lambda>e. map_of e (ustr ''Filename'')) (download_log (snd (records_loop recs ?s4))))"
    using assms by (rule records_loop_distinct) (simp_all add: init_def)
  then have "distinct (map (\<lambda>e. map_of e (ustr ''Filename'')) (download_log s5))"
    by (simp add: r)
  moreover have "download_log init = []"
    by (simp add: init_def)
  ultimately show ?thesis
    by (cases x; cases "session CloseBrowser")
       (auto simp: run_cases r seq_def call_def write_log_def print_def Let_def)
qed

lemma run_named:
  "(\<forall>e \<in> set (download_log (snd (download_audit_reports session recs init))).
      \<exists>(r, pg) \<in> set recs. \<exists>j < length (elements pg). failure (elements pg ! j) = None
        \<and> e = log_entry (strip (account_id r)) (start_date r)
                (audit_filename (strip (account_id r)) (start_date r) j))
   \<and> (\<forall>p \<in> set (files (snd (download_audit_reports session recs init))).
      \<exists>(r, pg) \<in> set recs. \<exists>j < length (elements pg). failure (elements pg ! j) = None
        \<and> p = os_path_join DOWNLOADS_DIR
                (audit_filename (strip (account_id r)) (start_date r) j))"
proof -
  let ?I = "\<lambda>s. (\<forall>e \<in> set (download_log s).
      \<exists>(r, pg) \<in> set recs. \<exists>j < length (elements pg). failure (elements pg ! j) = None
        \<and> e = log_entry (strip (account_id r)) (start_date r)
                (audit_filename (strip (account_id r)) (start_date r) j))
   \<and> (\<forall>p \<in> set (files s).
      \<exists>(r, pg) \<in> set recs. \<exists>j < length (elements pg). failure (elements pg ! j) = None
        \<and> p = os_path_join DOWNLOADS_DIR
                (audit_filename (strip (account_id r)) (start_date r) j))"
  have "preserves ?I (download_audit_reports session recs)"
  proof (rule run_invariant)
    fix r pg j
    assume in_recs: "(r, pg) \<in> set recs" and j: "j < length (elements pg)"
    show "preserves ?I (download_one (strip (account_id r)) (start_date r) j (elements pg ! j))"
    proof (cases "failure (elements pg ! j) = None")
      case True
      with in_recs j show ?thesis
        by (auto simp: preserves_def download_one_log download_one_files
                 intro!: bexI [of _ "(r, pg)"] exI [of _ j])
    next
      case False
      then obtain e where "failure (elements pg ! j) = Some e"
        by auto
      from download_one_failed(1,2) [OF this] show ?thesis
        by (simp add: preserves_def)
    qed
  qed simp_all
  moreover have "?I init" by (simp add: init_def)
  ultimately show ?thesis
    unfolding preserves_def by blast
qed

subsection \<open>Which exceptions leave a statement\<close>

lemma raises_only_skip: "raises_only E skip"
  by (simp add: raises_only_def skip_def)

lemma raises_only_seq: "raises_only E f \<Longrightarrow> raises_only E g \<Longrightarrow> raises_only E (seq f g)"
  by (auto simp: raises_only_def seq_def split: prod.splits option.splits)
     (metis fst_conv)+

lemma raises_only_block_Nil: "raises_only E (block [])"
  by (simp add: raises_only_skip)

lemma raises_only_block_Cons:
  "raises_only E f \<Longrightarrow> raises_only E (block fs) \<Longrightarrow> raises_only E (block (f # fs))"
  by (simp add: raises_only_seq)

lemma raises_only_if:
  "(c \<Longrightarrow> raises_only E f) \<Longrightarrow> (\<not> c \<Longrightarrow> raises_only E g) \<Longrightarrow> raises_only E (if c then f else g)"
  by simp

lemma raises_only_case_list:
  "(xs = [] \<Longrightarrow> raises_only E f) \<Longrightarrow> (\<And>y ys. xs = y # ys \<Longrightarrow> raises_only E (g y ys))
   \<Longrightarrow> raises_only E (case xs of [] \<Rightarrow> f | y # ys \<Rightarrow> g y ys)"
  by (cases xs) simp_all

lemma raises_only_print: "raises_only E (print l)"
  by (simp add: raises_only_def print_def)

lemma raises_only_call: "(\<And>e. rs c = Some e \<Longrightarrow> E e) \<Longrightarrow> raises_only E (call rs c)"
  by (simp add: raises_only_def call_def)

lemma raises_only_try_except:
  assumes "raises_only E' body"
      and "\<And>e. E' e \<Longrightarrow> is_Exception e \<Longrightarrow> raises_only E (handler e)"
      and "\<And>e. E' e \<Longrightarrow> \<not> is_Exception e \<Longrightarrow> E e"
  shows "raises_only E (try_except body handler)"
  unfolding raises_only_def
proof (intro allI impI)
  fix s e
  assume r: "fst (try_except body handler s) = Some e"
  obtain x s' where b: "body s = (x, s')" by (cases "body s")
  show "E e"
  proof (cases x)
    case None
    with r b show ?thesis by (simp add: try_except_def)
  next
    case (Some e')
    with assms(1) b have e': "E' e'"
      by (auto simp: raises_only_def dest: spec [of _ s])
    show ?thesis
    proof (cases "is_Exception e'")
      case True
      with r b Some have "fst (handler e' s') = Some e"
        by (simp add: try_except_def)
      with assms(2) [OF e' True] show ?thesis
        by (auto simp: raises_only_def)
    next
      case False
      with r b Some have "e = e'" by (simp add: try_except_def)
      with assms(3) [OF e' False] show ?thesis by simp
    qed
  qed
qed

lemmas raises_only_intros = raises_only_skip raises_only_seq raises_only_block_Nil
  raises_only_block_Cons raises_only_if raises_only_case_list raises_only_print raises_only_call

lemma process_row_contained:
  assumes "raises pg Goto = None" and "raises pg WaitGrid = None"
      and "\<forall>c e. raises pg c = Some e \<longrightarrow> is_Exception e"
      and "\<forall>a \<in> set (elements pg). catchable a"
  shows "raises_only (\<lambda>_. False) (process_row r pg)"
proof -
  have loop: "raises_only is_Exception (download_loop pid ls 0 (elements pg))" for pid ls
    by (simp add: raises_only_def download_loop_catchable [OF assms(4)])
  have "raises_only is_Exception (locate_and_download pg pid ls)" for pid ls
    unfolding locate_and_download_def
    by (intro raises_only_intros loop) (use assms(3) in blast)+
  then have "raises_only (\<lambda>_. False) (try_except (locate_and_download pg pid ls)
                (\<lambda>e. print (ErrorProcessing pid e)))" for pid ls
    by (rule raises_only_try_except) (simp_all add: raises_only_print)
  then show ?thesis
    unfolding process_row_def Let_def
    by (intro raises_only_intros) (simp_all add: assms(1,2))
qed

lemma records_loop_contained:
  assumes "\<forall>(r, pg) \<in> set recs. raises pg Goto = None \<and> raises pg WaitGrid = None
             \<and> (\<forall>c e. raises pg c = Some e \<longrightarrow> is_Exception e)
             \<and> (\<forall>a \<in> set (elements pg). catchable a)"
  shows "fst (records_loop recs s) = None"
  using assms
proof (induction recs arbitrary: s)
  case Nil
  then show ?case by (simp add: skip_def)
next
  case (Cons x recs)
  obtain r pg where x: "x = (r, pg)" by (cases x)
  have "raises_only (\<lambda>_. False) (process_row r pg)"
    using Cons.prems by (intro process_row_contained) (simp_all add: x)
  then have "fst (process_row r pg s) = None"
    by (cases "fst (process_row r pg s)") (auto simp: raises_only_def)
  moreover have "fst (records_loop recs t) = None" for t
    using Cons.prems by (intro Cons.IH) simp
  ultimately show ?case
    by (cases "process_row r pg s") (simp add: x seq_def)
qed

section \<open>The locate phase\<close>

text \<open>
  C1 (the code departs from it). The claim: every locate-phase failure of one record,
  the navigation timeout and the grid timeout included, is caught at the per-record
  boundary and the next record is processed. In the source \<^verbatim>\<open>page.goto\<close> (line 103)
  and the wait for the grid (line 104) stand before the \<^verbatim>\<open>try\<close> of line 106. Run on
  two records, the navigation of the first timing out: the exception leaves the
  function, the second record is never searched for and no log is written. The same
  happens when the wait for the grid times out.
\<close>

theorem navigation_timeout_leaves_run:
  "download_audit_reports (\<lambda>_. None)
     [(\<lparr>account_id = ustr ''PRSM-100'', start_date = \<lparr>year = 2025, month = 4, day = 2\<rparr>\<rparr>,
       \<lparr>raises = (\<lambda>_. None)(Goto \<mapsto> TimeoutError), search_box = True,
         rows = [[[], [], [], [], [], ustr ''PRSM-100'']],
         elements = [Download (ustr ''report.pdf'') None]\<rparr>),
      (\<lparr>account_id = ustr ''PRSM-200'', start_date = \<lparr>year = 2025, month = 4, day = 3\<rparr>\<rparr>,
       \<lparr>raises = (\<lambda>_. None), search_box = True,
         rows = [[[], [], [], [], [], ustr ''PRSM-200'']],
         elements = [Download (ustr ''report.pdf'') None]\<rparr>)] init
   = (Some TimeoutError,
      \<lparr>download_log = [], files = [], console = [Searching (ustr ''PRSM-100'')],
       page_calls = [StartPlaywright, Launch, NewContext, NewPage, Goto], log_csv = None\<rparr>)
   \<and> download_audit_reports (\<lambda>_. None)
     [(\<lparr>account_id = ustr ''PRSM-100'', start_date = \<lparr>year = 2025, month = 4, day = 2\<rparr>\<rparr>,
       \<lparr>raises = (\<lambda>_. None)(WaitGrid \<mapsto> TimeoutError), search_box = True,
         rows = [[[], [], [], [], [], ustr ''PRSM-100'']],
         elements = [Download (ustr ''report.pdf'') None]\<rparr>),
      (\<lparr>account_id = ustr ''PRSM-200'', start_date = \<lparr>year = 2025, month = 4, day = 3\<rparr>\<rparr>,
       \<lparr>raises = (\<lambda>_. None), search_box = True,
         rows = [[[], [], [], [], [], ustr ''PRSM-200'']],
         elements = [Download (ustr ''report.pdf'') None]\<rparr>)] init
   = (Some TimeoutError,
      \<lparr>download_log = [], files = [], console = [Searching (ustr ''PRSM-100'')],
       page_calls = [StartPlaywright, Launch, NewContext, NewPage, Goto, WaitGrid],
       log_csv = None\<rparr>)"
  by (simp add: download_audit_reports_def process_row_def Let_def step_defs init_def
        ustr_def strip_def isspace_def)

text \<open>
  C3. When the first result row has an identifying cell (the sixth) whose stripped text
  differs from the stripped target id, processing the record appends nothing to the
  download log, saves no file, and neither clicks the row nor any attachment element,
  whatever else the page does. When the calls succeed and the search box is there, the
  record ends right after the cell is read, with the mismatch line.
\<close>

theorem mismatch_opens_nothing:
  assumes "rows pg = cells # others" and "6 \<le> length cells"
      and "strip (cells ! 5) \<noteq> strip (account_id r)"
  shows "download_log (snd (process_row r pg s)) = download_log s
       \<and> files (snd (process_row r pg s)) = files s
       \<and> (\<exists>cs. page_calls (snd (process_row r pg s)) = page_calls s @ cs
               \<and> ClickRow \<notin> set cs \<and> (\<forall>j. ClickElement j \<notin> set cs))
       \<and> ((\<forall>c. raises pg c = None) \<and> search_box pg \<longrightarrow>
            process_row r pg s =
              (None, s\<lparr>console := console s @ [Searching (strip (account_id r)),
                                                 PoId (strip (cells ! 5)),
                                                 Mismatch (strip (account_id r))],
                        page_calls := page_calls s @ [Goto, WaitGrid, WaitSearch, QuerySearch,
                           ClickSearch, FillSearch, TypeSearch (strip (account_id r)),
                           PressEnter, Blur, SettleSearch, QueryRows, QueryCells,
                           InnerText]\<rparr>))"
proof -
  have a: "download_log (snd (process_row r pg s)) = download_log s
       \<and> files (snd (process_row r pg s)) = files s
       \<and> (\<exists>cs. page_calls (snd (process_row r pg s)) = page_calls s @ cs
               \<and> ClickRow \<notin> set cs \<and> (\<forall>j. ClickElement j \<notin> set cs))"
    using assms
    by (simp add: process_row_def locate_and_download_def Let_def step_defs
          split: option.splits)
  have b: "process_row r pg s =
              (None, s\<lparr>console := console s @ [Searching (strip (account_id r)),
                                                 PoId (strip (cells ! 5)),
                                                 Mismatch (strip (account_id r))],
                        page_calls := page_calls s @ [Goto, WaitGrid, WaitSearch, QuerySearch,
                           ClickSearch, FillSearch, TypeSearch (strip (account_id r)),
                           PressEnter, Blur, SettleSearch, QueryRows, QueryCells,
                           InnerText]\<rparr>)"
    if "\<forall>c. raises pg c = None" "search_box pg"
    using that assms
    by (simp add: process_row_def locate_and_download_def Let_def step_defs)
  from a b show ?thesis by blast
qed

theorem mismatch_opens_nothing_witness:
  "process_row
      \<lparr>account_id = ustr ''PRSM-100'', start_date = \<lparr>year = 2025, month = 4, day = 2\<rparr>\<rparr>
      \<lparr>raises = (\<lambda>_. None), search_box = True,
        rows = [[ustr ''a'', ustr ''b'', ustr ''c'', ustr ''d'', ustr ''e'',
                 [0xA0] @ ustr ''PRSM-999 '', ustr ''g'']],
        elements = [Download (ustr ''report.pdf'') None]\<rparr> init
   = (None,
      \<lparr>download_log = [], files = [],
       console = [Searching (ustr ''PRSM-100''), PoId (ustr ''PRSM-999''),
                  Mismatch (ustr ''PRSM-100'')],
       page_calls = [Goto, WaitGrid, WaitSearch, QuerySearch, ClickSearch, FillSearch,
                     TypeSearch (ustr ''PRSM-100''), PressEnter, Blur, SettleSearch, QueryRows,
                     QueryCells, InnerText],
       log_csv = None\<rparr>)"
  using mismatch_opens_nothing [of
      "\<lparr>raises = (\<lambda>_. None), search_box = True,
        rows = [[ustr ''a'', ustr ''b'', ustr ''c'', ustr ''d'', ustr ''e'',
                 [0xA0] @ ustr ''PRSM-999 '', ustr ''g'']],
        elements = [Download (ustr ''report.pdf'') None]\<rparr>"
      "[ustr ''a'', ustr ''b'', ustr ''c'', ustr ''d'', ustr ''e'',
        [0xA0] @ ustr ''PRSM-999 '', ustr ''g'']" "[]"
      "\<lparr>account_id = ustr ''PRSM-100'', start_date = \<lparr>year = 2025, month = 4, day = 2\<rparr>\<rparr>"
      init]
  by (simp add: ustr_def strip_def isspace_def init_def)

text \<open>
  C8. A record that is located (no call raises, the search box is there, the sixth cell
  of the first row is the target id) and whose detail view has no "Audit Report" element:
  processing it raises nothing, prints the note and no failure line, leaves the log and
  the files as they were, and the loop goes on with the records that follow.
\<close>

theorem no_audit_reports_is_no_error:
  assumes "\<forall>c. raises pg c = None" and "search_box pg"
      and "rows pg = cells # others" and "6 \<le> length cells"
      and "strip (cells ! 5) = strip (account_id r)"
      and "elements pg = []"
  shows "process_row r pg s =
           (None, s\<lparr>console := console s @ [Searching (strip (account_id r)),
                                              PoId (strip (account_id r)),
                                              NoAuditReports (strip (account_id r))],
                     page_calls := page_calls s @ [Goto, WaitGrid, WaitSearch, QuerySearch,
                        ClickSearch, FillSearch, TypeSearch (strip (account_id r)), PressEnter,
                        Blur, SettleSearch, QueryRows, QueryCells, InnerText, ClickRow,
                        SettleDetail, QueryElements]\<rparr>)
       \<and> records_loop ((r, pg) # rest) s = records_loop rest (snd (process_row r pg s))"
proof -
  have "process_row r pg s =
           (None, s\<lparr>console := console s @ [Searching (strip (account_id r)),
                                              PoId (strip (account_id r)),
                                              NoAuditReports (strip (account_id r))],
                     page_calls := page_calls s @ [Goto, WaitGrid, WaitSearch, QuerySearch,
                        ClickSearch, FillSearch, TypeSearch (strip (account_id r)), PressEnter,
                        Blur, SettleSearch, QueryRows, QueryCells, InnerText, ClickRow,
                        SettleDetail, QueryElements]\<rparr>)"
    using assms
    by (simp add: process_row_def locate_and_download_def Let_def step_defs)
  then show ?thesis
    by (simp add: seq_def)
qed

theorem no_audit_reports_is_no_error_witness:
  "fst (process_row
      \<lparr>account_id = ustr ''PRSM-100 '', start_date = \<lparr>year = 2025, month = 4, day = 2\<rparr>\<rparr>
      \<lparr>raises = (\<lambda>_. None), search_box = True,
        rows = [[ustr ''a'', ustr ''b'', ustr ''c'', ustr ''d'', ustr ''e'', ustr ''PRSM-100'']], elements = []\<rparr> init) = None
   \<and> console (snd (process_row
      \<lparr>account_id = ustr ''PRSM-100 '', start_date = \<lparr>year = 2025, month = 4, day = 2\<rparr>\<rparr>
      \<lparr>raises = (\<lambda>_. None), search_box = True,
        rows = [[ustr ''a'', ustr ''b'', ustr ''c'', ustr ''d'', ustr ''e'', ustr ''PRSM-100'']], elements = []\<rparr> init))
     = [Searching (ustr ''PRSM-100''), PoId (ustr ''PRSM-100''), NoAuditReports (ustr ''PRSM-100'')]"
  using no_audit_reports_is_no_error [of
      "\<lparr>raises = (\<lambda>_. None), search_box = True,
        rows = [[ustr ''a'', ustr ''b'', ustr ''c'', ustr ''d'', ustr ''e'', ustr ''PRSM-100'']], elements = []\<rparr>"
      "[ustr ''a'', ustr ''b'', ustr ''c'', ustr ''d'', ustr ''e'', ustr ''PRSM-100'']" "[]"
      "\<lparr>account_id = ustr ''PRSM-100 '', start_date = \<lparr>year = 2025, month = 4, day = 2\<rparr>\<rparr>"
      init]
  by (simp add: ustr_def strip_def isspace_def init_def)

text \<open>
  C9. The verification reads the sixth cell (index 5) of the first row and nothing else
  of the grid: with at least six cells, the record is processed exactly as if the grid
  were one row holding that cell after five empty ones. When the calls succeed and the
  search box is there, the stripped text of that cell is what is printed as the PO ID
  and what is compared with the target id: if they differ the record ends with the
  mismatch line, the row unopened; if they are equal the row is clicked and the
  attachments of the detail view are gone through. With fewer than six cells the cell
  text is not read, the row is not clicked, nothing is saved or logged, and when the
  calls before succeed the record ends with the line "Unexpected row format".
\<close>

theorem sixth_cell_of_first_row:
  assumes "rows pg = cells # others"
  shows "(6 \<le> length cells \<longrightarrow>
            process_row r pg = process_row r (pg\<lparr>rows := [replicate 5 [] @ [cells ! 5]]\<rparr>))
       \<and> (6 \<le> length cells \<and> (\<forall>c. raises pg c = None) \<and> search_box pg
            \<and> strip (cells ! 5) \<noteq> strip (account_id r) \<longrightarrow>
            process_row r pg s =
              (None, s\<lparr>console := console s @ [Searching (strip (account_id r)),
                                                 PoId (strip (cells ! 5)),
                                                 Mismatch (strip (account_id r))],
                        page_calls := page_calls s @ [Goto, WaitGrid, WaitSearch, QuerySearch,
                           ClickSearch, FillSearch, TypeSearch (strip (account_id r)),
                           PressEnter, Blur, SettleSearch, QueryRows, QueryCells,
                           InnerText]\<rparr>))
       \<and> (6 \<le> length cells \<and> (\<forall>c. raises pg c = None) \<and> search_box pg
            \<and> strip (cells ! 5) = strip (account_id r) \<longrightarrow>
            process_row r pg s =
              try_except
                (if elements pg = [] then print (NoAuditReports (strip (account_id r)))
                 else download_loop (strip (account_id r)) (start_date r) 0 (elements pg))
                (\<lambda>e. print (ErrorProcessing (strip (account_id r)) e))
                (s\<lparr>console := console s @ [Searching (strip (account_id r)),
                                             PoId (strip (cells ! 5))],
                    page_calls := page_calls s @ [Goto, WaitGrid, WaitSearch, QuerySearch,
                       ClickSearch, FillSearch, TypeSearch (strip (account_id r)),
                       PressEnter, Blur, SettleSearch, QueryRows, QueryCells,
                       InnerText, ClickRow, SettleDetail, QueryElements]\<rparr>))
       \<and> (length cells < 6 \<longrightarrow>
            download_log (snd (process_row r pg s)) = download_log s
          \<and> files (snd (process_row r pg s)) = files s
          \<and> (\<exists>cs. page_calls (snd (process_row r pg s)) = page_calls s @ cs
                  \<and> InnerText \<notin> set cs \<and> ClickRow \<notin> set cs)
          \<and> ((\<forall>c. raises pg c = None) \<and> search_box pg \<longrightarrow>
                fst (process_row r pg s) = None
              \<and> console (snd (process_row r pg s))
                  = console s @ [Searching (strip (account_id r)),
                                 UnexpectedRowFormat (strip (account_id r))]))"
proof -
  have five: "(replicate 5 [] @ [x]) ! 5 = x" for x :: str
    by (simp add: nth_append)
  have a: "process_row r pg = process_row r (pg\<lparr>rows := [replicate 5 [] @ [cells ! 5]]\<rparr>)"
    if "6 \<le> length cells"
    using that assms
    by (simp add: process_row_def locate_and_download_def Let_def five)
  have m: "process_row r pg s =
              (None, s\<lparr>console := console s @ [Searching (strip (account_id r)),
                                                 PoId (strip (cells ! 5)),
                                                 Mismatch (strip (account_id r))],
                        page_calls := page_calls s @ [Goto, WaitGrid, WaitSearch, QuerySearch,
                           ClickSearch, FillSearch, TypeSearch (strip (account_id r)),
                           PressEnter, Blur, SettleSearch, QueryRows, QueryCells,
                           InnerText]\<rparr>)"
    if "6 \<le> length cells" "\<forall>c. raises pg c = None" "search_box pg"
       "strip (cells ! 5) \<noteq> strip (account_id r)"
    using that assms
    by (simp add: process_row_def locate_and_download_def Let_def step_defs)
  have e: "process_row r pg s =
              try_except
                (if elements pg = [] then print (NoAuditReports (strip (account_id r)))
                 else download_loop (strip (account_id r)) (start_date r) 0 (elements pg))
                (\<lambda>e. print (ErrorProcessing (strip (account_id r)) e))
                (s\<lparr>console := console s @ [Searching (strip (account_id r)),
                                             PoId (strip (cells ! 5))],
                    page_calls := page_calls s @ [Goto, WaitGrid, WaitSearch, QuerySearch,
                       ClickSearch, FillSearch, TypeSearch (strip (account_id r)),
                       PressEnter, Blur, SettleSearch, QueryRows, QueryCells,
                       InnerText, ClickRow, SettleDetail, QueryElements]\<rparr>)"
    if "6 \<le> length cells" "\<forall>c. raises pg c = None" "search_box pg"
       "strip (cells ! 5) = strip (account_id r)"
    using that assms
    by (simp add: process_row_def locate_and_download_def Let_def step_defs
          split: prod.splits option.splits)
  have b: "download_log (snd (process_row r pg s)) = download_log s
          \<and> files (snd (process_row r pg s)) = files s
          \<and> (\<exists>cs. page_calls (snd (process_row r pg s)) = page_calls s @ cs
                  \<and> InnerText \<notin> set cs \<and> ClickRow \<notin> set cs)"
    if "length cells < 6"
    using that assms
    by (simp add: process_row_def locate_and_download_def Let_def step_defs split: option.splits)
  have c: "fst (process_row r pg s) = None
              \<and> console (snd (process_row r pg s))
                  = console s @ [Searching (strip (account_id r)),
                                 UnexpectedRowFormat (strip (account_id r))]"
    if "length cells < 6" "\<forall>c. raises pg c = None" "search_box pg"
    using that assms
    by (simp add: process_row_def locate_and_download_def Let_def step_defs)
  show ?thesis using a m e b c by blast
qed

theorem sixth_cell_of_first_row_witness:
  "process_row \<lparr>account_id = ustr ''PRSM-100'', start_date = \<lparr>year = 2025, month = 4, day = 2\<rparr>\<rparr>
      \<lparr>raises = (\<lambda>_. None), search_box = True,
        rows = [[ustr ''a'', ustr ''b'', ustr ''c'', ustr ''d'', ustr ''e'', ustr ''PRSM-100'',
                 ustr ''g''], [ustr ''h'']],
        elements = []\<rparr>
   = process_row \<lparr>account_id = ustr ''PRSM-100'', start_date = \<lparr>year = 2025, month = 4, day = 2\<rparr>\<rparr>
      \<lparr>raises = (\<lambda>_. None), search_box = True,
        rows = [replicate 5 [] @ [ustr ''PRSM-100'']], elements = []\<rparr>
   \<and> console (snd (process_row
         \<lparr>account_id = ustr ''PRSM-100'', start_date = \<lparr>year = 2025, month = 4, day = 2\<rparr>\<rparr>
         \<lparr>raises = (\<lambda>_. None), search_box = True,
           rows = [[ustr ''PRSM-100'', ustr ''b'', ustr ''c'', ustr ''d'', ustr ''e'',
                    ustr ''PRSM-999'' @ [0xA0], ustr ''g'']],
           elements = [Download (ustr ''report.pdf'') None]\<rparr> init))
     = [Searching (ustr ''PRSM-100''), PoId (ustr ''PRSM-999''), Mismatch (ustr ''PRSM-100'')]
   \<and> page_calls (snd (process_row
         \<lparr>account_id = ustr ''PRSM-100'', start_date = \<lparr>year = 2025, month = 4, day = 2\<rparr>\<rparr>
         \<lparr>raises = (\<lambda>_. None), search_box = True,
           rows = [[ustr ''a'', ustr ''b'', ustr ''c'', ustr ''d'', ustr ''e'',
                    ustr ''PRSM-100'' @ [0xA0], ustr ''g'']],
           elements = [Download (ustr ''report.pdf'') None]\<rparr> init))
     = [Goto, WaitGrid, WaitSearch, QuerySearch, ClickSearch, FillSearch,
        TypeSearch (ustr ''PRSM-100''), PressEnter, Blur, SettleSearch, QueryRows, QueryCells,
        InnerText, ClickRow, SettleDetail, QueryElements, ClickElement 0,
        SaveAs (ustr ''..../PRSM-100_2025-04-02_audit_1.pdf'')]
   \<and> console (snd (process_row
         \<lparr>account_id = ustr ''PRSM-100'', start_date = \<lparr>year = 2025, month = 4, day = 2\<rparr>\<rparr>
         \<lparr>raises = (\<lambda>_. None), search_box = True,
           rows = [[ustr ''a'', ustr ''b'', ustr ''PRSM-100'']], elements = []\<rparr> init))
     = [Searching (ustr ''PRSM-100''), UnexpectedRowFormat (ustr ''PRSM-100'')]"
proof -
  let ?r = "\<lparr>account_id = ustr ''PRSM-100'', start_date = \<lparr>year = 2025, month = 4, day = 2\<rparr>\<rparr>"
  have 1: "process_row ?r
      \<lparr>raises = (\<lambda>_. None), search_box = True,
        rows = [[ustr ''a'', ustr ''b'', ustr ''c'', ustr ''d'', ustr ''e'', ustr ''PRSM-100'',
                 ustr ''g''], [ustr ''h'']],
        elements = []\<rparr>
   = process_row ?r
      \<lparr>raises = (\<lambda>_. None), search_box = True,
        rows = [replicate 5 [] @ [ustr ''PRSM-100'']], elements = []\<rparr>"
    using sixth_cell_of_first_row [of
      "\<lparr>raises = (\<lambda>_. None), search_box = True,
        rows = [[ustr ''a'', ustr ''b'', ustr ''c'', ustr ''d'', ustr ''e'', ustr ''PRSM-100'',
                 ustr ''g''], [ustr ''h'']],
        elements = []\<rparr>"
      "[ustr ''a'', ustr ''b'', ustr ''c'', ustr ''d'', ustr ''e'', ustr ''PRSM-100'', ustr ''g'']"
      "[[ustr ''h'']]" ?r init]
    by simp
  have 2: "console (snd (process_row ?r
         \<lparr>raises = (\<lambda>_. None), search_box = True,
           rows = [[ustr ''PRSM-100'', ustr ''b'', ustr ''c'', ustr ''d'', ustr ''e'',
                    ustr ''PRSM-999'' @ [0xA0], ustr ''g'']],
           elements = [Download (ustr ''report.pdf'') None]\<rparr> init))
     = [Searching (ustr ''PRSM-100''), PoId (ustr ''PRSM-999''), Mismatch (ustr ''PRSM-100'')]"
    using sixth_cell_of_first_row [of
      "\<lparr>raises = (\<lambda>_. None), search_box = True,
           rows = [[ustr ''PRSM-100'', ustr ''b'', ustr ''c'', ustr ''d'', ustr ''e'',
                    ustr ''PRSM-999'' @ [0xA0], ustr ''g'']],
           elements = [Download (ustr ''report.pdf'') None]\<rparr>"
      "[ustr ''PRSM-100'', ustr ''b'', ustr ''c'', ustr ''d'', ustr ''e'',
        ustr ''PRSM-999'' @ [0xA0], ustr ''g'']" "[]" ?r init, THEN conjunct2]
    by (simp add: run_defs string_defs)
  have 3: "page_calls (snd (process_row ?r
         \<lparr>raises = (\<lambda>_. None), search_box = True,
           rows = [[ustr ''a'', ustr ''b'', ustr ''c'', ustr ''d'', ustr ''e'',
                    ustr ''PRSM-100'' @ [0xA0], ustr ''g'']],
           elements = [Download (ustr ''report.pdf'') None]\<rparr> init))
     = [Goto, WaitGrid, WaitSearch, QuerySearch, ClickSearch, FillSearch,
        TypeSearch (ustr ''PRSM-100''), PressEnter, Blur, SettleSearch, QueryRows, QueryCells,
        InnerText, ClickRow, SettleDetail, QueryElements, ClickElement 0,
        SaveAs (ustr ''..../PRSM-100_2025-04-02_audit_1.pdf'')]"
    using sixth_cell_of_first_row [of
      "\<lparr>raises = (\<lambda>_. None), search_box = True,
           rows = [[ustr ''a'', ustr ''b'', ustr ''c'', ustr ''d'', ustr ''e'',
                    ustr ''PRSM-100'' @ [0xA0], ustr ''g'']],
           elements = [Download (ustr ''report.pdf'') None]\<rparr>"
      "[ustr ''a'', ustr ''b'', ustr ''c'', ustr ''d'', ustr ''e'',
        ustr ''PRSM-100'' @ [0xA0], ustr ''g'']" "[]" ?r init, THEN conjunct2]
    by (simp add: run_defs string_defs)
  have 4: "console (snd (process_row ?r
         \<lparr>raises = (\<lambda>_. None), search_box = True,
           rows = [[ustr ''a'', ustr ''b'', ustr ''PRSM-100'']], elements = []\<rparr> init))
     = [Searching (ustr ''PRSM-100''), UnexpectedRowFormat (ustr ''PRSM-100'')]"
    using sixth_cell_of_first_row [of
      "\<lparr>raises = (\<lambda>_. None), search_box = True,
           rows = [[ustr ''a'', ustr ''b'', ustr ''PRSM-100'']], elements = []\<rparr>"
      "[ustr ''a'', ustr ''b'', ustr ''PRSM-100'']" "[]" ?r init, THEN conjunct2]
    by (simp add: run_defs string_defs)
  from 1 2 3 4 show ?thesis by simp
qed

section \<open>The attachments\<close>

text \<open>
  C2. At the end of every run, returned or raised, the download log and the completed
  saves correspond one to one and in order: the paths of the log entries are the paths
  for which \<^verbatim>\<open>save_as\<close> completed. For one candidate, the log and the saved files
  gain the candidate's entry and path exactly when its download arrived and its save
  completed; a candidate that fails adds neither.
\<close>

theorem entry_iff_saved:
  "map saved_path (download_log (snd (download_audit_reports session recs init)))
     = map Some (files (snd (download_audit_reports session recs init)))
   \<and> download_log (snd (download_one pid ls j a s)) =
       download_log s @ (if failure a = None then [log_entry pid ls (audit_filename pid ls j)] else [])
   \<and> files (snd (download_one pid ls j a s)) =
       files s @ (if failure a = None then [os_path_join DOWNLOADS_DIR (audit_filename pid ls j)] else [])"
proof -
  let ?I = "\<lambda>s. map saved_path (download_log s) = map Some (files s)"
  have "preserves ?I (download_audit_reports session recs)"
    by (rule run_invariant)
       (simp_all add: preserves_def download_one_log download_one_files saved_path_def
          filename_of_log_entry)
  moreover have "?I init" by (simp add: init_def)
  ultimately show ?thesis
    by (simp add: preserves_def download_one_log download_one_files)
qed

theorem entry_iff_saved_witness:
  "files (snd (download_audit_reports (\<lambda>_. None)
     [(\<lparr>account_id = ustr ''PRSM-100'', start_date = \<lparr>year = 2025, month = 4, day = 2\<rparr>\<rparr>,
       \<lparr>raises = (\<lambda>_. None), search_box = True,
         rows = [[[], [], [], [], [], ustr ''PRSM-100'']],
         elements = [Download (ustr ''a.pdf'') (Some OSError), Download (ustr ''b.pdf'') None]\<rparr>)] init))
     = [ustr ''..../PRSM-100_2025-04-02_audit_2.pdf'']
   \<and> download_log (snd (download_one (ustr ''PRSM-100'') \<lparr>year = 2025, month = 4, day = 2\<rparr> 0
         (Download (ustr ''a.pdf'') (Some OSError)) init)) = []"
  using entry_iff_saved [of "\<lambda>_. None"
     "[(\<lparr>account_id = ustr ''PRSM-100'', start_date = \<lparr>year = 2025, month = 4, day = 2\<rparr>\<rparr>,
       \<lparr>raises = (\<lambda>_. None), search_box = True,
         rows = [[[], [], [], [], [], ustr ''PRSM-100'']],
         elements = [Download (ustr ''a.pdf'') (Some OSError), Download (ustr ''b.pdf'') None]\<rparr>)]"
     "ustr ''PRSM-100''" "\<lparr>year = 2025, month = 4, day = 2\<rparr>" 0 "Download (ustr ''a.pdf'') (Some OSError)" init]
  by (simp add: run_defs string_defs saved_path_def failure_def)

text \<open>
  C6 as stated fails: \<^verbatim>\<open>drop_duplicates\<close> (line 86) compares the ids before
  \<^verbatim>\<open>strip()\<close> (line 99), so two rows whose ids differ in surrounding blanks only are
  both processed and give the same entry twice.
\<close>

theorem same_triple_twice:
  "download_log (snd (download_audit_reports (\<lambda>_. None)
     [(\<lparr>account_id = ustr '' PRSM-100'', start_date = \<lparr>year = 2025, month = 4, day = 2\<rparr>\<rparr>,
       \<lparr>raises = (\<lambda>_. None), search_box = True,
         rows = [[[], [], [], [], [], ustr ''PRSM-100'']],
         elements = [Download (ustr ''report.pdf'') None]\<rparr>),
      (\<lparr>account_id = ustr ''PRSM-100'', start_date = \<lparr>year = 2025, month = 4, day = 2\<rparr>\<rparr>,
       \<lparr>raises = (\<lambda>_. None), search_box = True,
         rows = [[[], [], [], [], [], ustr ''PRSM-100'']],
         elements = [Download (ustr ''report.pdf'') None]\<rparr>)] init))
   = [[(ustr ''Prisma ID'', ustr ''PRSM-100''), (ustr ''License Start Date'', ustr ''2025-04-02''),
       (ustr ''File Type'', ustr ''Audit Report''), (ustr ''Filename'', ustr ''PRSM-100_2025-04-02_audit_1.pdf'')],
      [(ustr ''Prisma ID'', ustr ''PRSM-100''), (ustr ''License Start Date'', ustr ''2025-04-02''),
       (ustr ''File Type'', ustr ''Audit Report''), (ustr ''Filename'', ustr ''PRSM-100_2025-04-02_audit_1.pdf'')]]
   \<and> \<not> distinct (download_log (snd (download_audit_reports (\<lambda>_. None)
     [(\<lparr>account_id = ustr '' PRSM-100'', start_date = \<lparr>year = 2025, month = 4, day = 2\<rparr>\<rparr>,
       \<lparr>raises = (\<lambda>_. None), search_box = True,
         rows = [[[], [], [], [], [], ustr ''PRSM-100'']],
         elements = [Download (ustr ''report.pdf'') None]\<rparr>),
      (\<lparr>account_id = ustr ''PRSM-100'', start_date = \<lparr>year = 2025, month = 4, day = 2\<rparr>\<rparr>,
       \<lparr>raises = (\<lambda>_. None), search_box = True,
         rows = [[[], [], [], [], [], ustr ''PRSM-100'']],
         elements = [Download (ustr ''report.pdf'') None]\<rparr>)] init)))"
  by (simp add: run_defs string_defs)

text \<open>
  C6, amended. Every entry of the log and every saved file belongs to an input record
  and to a position \<open>j\<close> (counted from 0) of its "Audit Report" elements whose save
  completed; the file name is the stripped id, the start date as YYYY-MM-DD, and
  \<open>j + 1\<close>, in the pattern \<^verbatim>\<open>{id}_{date}_audit_{j+1}.pdf\<close>, and the file is saved at
  \<^verbatim>\<open>os.path.join(DOWNLOADS_DIR, name)\<close>, which is the name inside the download
  directory unless the stripped id begins with a slash. When no two input records
  agree in stripped id and formatted date, the file names of the log, hence its
  (id, date, index) triples, are pairwise distinct.
\<close>

theorem audit_file_names:
  "(\<forall>e \<in> set (download_log (snd (download_audit_reports session recs init))).
      \<exists>(r, pg) \<in> set recs. \<exists>j < length (elements pg). failure (elements pg ! j) = None
        \<and> e = [(ustr ''Prisma ID'', strip (account_id r)),
               (ustr ''License Start Date'', strftime (start_date r)),
               (ustr ''File Type'', ustr ''Audit Report''),
               (ustr ''Filename'', strip (account_id r) @ ustr ''_'' @ strftime (start_date r)
                                @ ustr ''_audit_'' @ str_nat (j + 1) @ ustr ''.pdf'')])
   \<and> (\<forall>p \<in> set (files (snd (download_audit_reports session recs init))).
      \<exists>(r, pg) \<in> set recs. \<exists>j < length (elements pg). failure (elements pg ! j) = None
        \<and> p = os_path_join DOWNLOADS_DIR
                (strip (account_id r) @ ustr ''_'' @ strftime (start_date r)
                   @ ustr ''_audit_'' @ str_nat (j + 1) @ ustr ''.pdf''))
   \<and> (\<not> prefix (ustr ''/'') pid \<longrightarrow>
        os_path_join DOWNLOADS_DIR (pid @ ustr ''_'' @ date @ ustr ''_audit_'' @ str_nat (k + 1)
                                      @ ustr ''.pdf'')
          = DOWNLOADS_DIR @ ustr ''/'' @ pid @ ustr ''_'' @ date @ ustr ''_audit_''
              @ str_nat (k + 1) @ ustr ''.pdf'')
   \<and> (distinct (map (\<lambda>x. record_key (fst x)) recs) \<longrightarrow>
        distinct (map (\<lambda>e. map_of e (ustr ''Filename''))
          (download_log (snd (download_audit_reports session recs init)))))"
proof -
  have "os_path_join DOWNLOADS_DIR (pid @ ustr ''_'' @ date @ ustr ''_audit_'' @ str_nat (k + 1)
                                      @ ustr ''.pdf'')
          = DOWNLOADS_DIR @ ustr ''/'' @ pid @ ustr ''_'' @ date @ ustr ''_audit_''
              @ str_nat (k + 1) @ ustr ''.pdf''"
    if "\<not> prefix (ustr ''/'') pid"
    using that by (cases pid) (simp_all add: os_path_join_def DOWNLOADS_DIR_def ustr_def)
  with run_named [of session recs] run_distinct [of recs session] show ?thesis
    by (simp add: log_entry_def audit_filename_def)
qed

theorem audit_file_names_witness:
  "map (\<lambda>e. map_of e (ustr ''Filename'')) (download_log (snd (download_audit_reports (\<lambda>_. None)
     [(\<lparr>account_id = ustr '' PRSM-100'', start_date = \<lparr>year = 2025, month = 4, day = 2\<rparr>\<rparr>,
       \<lparr>raises = (\<lambda>_. None), search_box = True,
         rows = [[[], [], [], [], [], ustr ''PRSM-100'']],
         elements = [Download (ustr ''a.pdf'') None, NoDownload TimeoutError, Download (ustr ''c.pdf'') None]\<rparr>),
      (\<lparr>account_id = ustr ''PRSM-200'', start_date = \<lparr>year = 2025, month = 4, day = 2\<rparr>\<rparr>,
       \<lparr>raises = (\<lambda>_. None), search_box = True,
         rows = [[[], [], [], [], [], ustr ''PRSM-200'']],
         elements = [Download (ustr ''a.pdf'') None]\<rparr>)] init)))
   = [Some (ustr ''PRSM-100_2025-04-02_audit_1.pdf''), Some (ustr ''PRSM-100_2025-04-02_audit_3.pdf''),
      Some (ustr ''PRSM-200_2025-04-02_audit_1.pdf'')]"
  using audit_file_names [of "\<lambda>_. None"
     "[(\<lparr>account_id = ustr '' PRSM-100'', start_date = \<lparr>year = 2025, month = 4, day = 2\<rparr>\<rparr>,
       \<lparr>raises = (\<lambda>_. None), search_box = True,
         rows = [[[], [], [], [], [], ustr ''PRSM-100'']],
         elements = [Download (ustr ''a.pdf'') None, NoDownload TimeoutError, Download (ustr ''c.pdf'') None]\<rparr>),
      (\<lparr>account_id = ustr ''PRSM-200'', start_date = \<lparr>year = 2025, month = 4, day = 2\<rparr>\<rparr>,
       \<lparr>raises = (\<lambda>_. None), search_box = True,
         rows = [[[], [], [], [], [], ustr ''PRSM-200'']],
         elements = [Download (ustr ''a.pdf'') None]\<rparr>)]"]
  by (simp add: run_defs string_defs record_key_def)

text \<open>
  C7. In the attachment loop, let a candidate fail with an exception that
  \<^verbatim>\<open>except Exception\<close> catches (a download timeout, a failed save), the candidates
  before it having been gone through. Then the loop goes on with the next candidate at
  the next index, from the state the earlier candidates left plus the "Download failed"
  line and the calls of the failed attempt: the entries of the earlier candidates stay
  in the log to the end, and the element after the failed one is clicked.
\<close>

theorem failed_attachment_is_skipped:
  assumes "failure a = Some e" and "is_Exception e"
      and "download_loop pid ls j before s = (None, s1)"
  shows "download_loop pid ls j (before @ a # after) s
           = download_loop pid ls (j + length before + 1) after
               (s1\<lparr>console := console s1 @ [DownloadFailed pid e],
                    page_calls := page_calls s1 @ attempt_calls pid ls (j + length before, a)\<rparr>)
       \<and> prefix (download_log s1)
                 (download_log (snd (download_loop pid ls j (before @ a # after) s)))
       \<and> (after \<noteq> [] \<longrightarrow> ClickElement (j + length before + 1)
              \<in> set (page_calls (snd (download_loop pid ls j (before @ a # after) s))))"
proof -
  let ?s2 = "s1\<lparr>console := console s1 @ [DownloadFailed pid e],
                 page_calls := page_calls s1 @ attempt_calls pid ls (j + length before, a)\<rparr>"
  have c: "catchable a"
    using assms(1,2) by (simp add: catchable_def)
  have one: "download_one pid ls (j + length before) a s1 = (None, ?s2)"
    using assms(1) by (simp add: download_one_catchable [OF c] saved_def attempt_line_def)
  have eq: "download_loop pid ls j (before @ a # after) s
              = download_loop pid ls (j + length before + 1) after ?s2"
    by (simp add: download_loop_append seq_def assms(3) one)
  have "prefix (download_log ?s2)
          (download_log (snd (download_loop pid ls (j + length before + 1) after ?s2)))"
    using download_loop_grows by blast
  then have keep: "prefix (download_log s1)
                 (download_log (snd (download_loop pid ls j (before @ a # after) s)))"
    by (simp add: eq)
  have click: "ClickElement (j + length before + 1)
              \<in> set (page_calls (snd (download_loop pid ls j (before @ a # after) s)))"
    if "after \<noteq> []"
  proof -
    define k where "k = j + length before + 1"
    from that obtain b rest where after: "after = b # rest"
      by (cases after) auto
    obtain x s3 where b: "download_one pid ls k b ?s2 = (x, s3)"
      by (cases "download_one pid ls k b ?s2")
    from download_one_grows(2) obtain cs
      where "page_calls (snd (download_one pid ls k b ?s2)) = page_calls ?s2 @ ClickElement k # cs"
      by blast
    then have in3: "ClickElement k \<in> set (page_calls s3)"
      by (simp add: b)
    have "prefix (page_calls s3) (page_calls (snd (download_loop pid ls (k + 1) rest s3)))"
      using download_loop_grows by blast
    with in3 have "ClickElement k \<in> set (page_calls (snd (download_loop pid ls (k + 1) rest s3)))"
      by (auto dest: set_mono_prefix)
    with in3 have "ClickElement k \<in> set (page_calls (snd (download_loop pid ls k after ?s2)))"
      by (cases x) (simp_all add: after seq_def b)
    then show ?thesis
      unfolding eq k_def .
  qed
  from eq keep click show ?thesis by blast
qed

theorem failed_attachment_is_skipped_witness:
  "download_loop (ustr ''PRSM-100'') \<lparr>year = 2025, month = 4, day = 2\<rparr> 0
       [Download (ustr ''a.pdf'') None, NoDownload TimeoutError, Download (ustr ''c.pdf'') None] init
   = (None,
      \<lparr>download_log =
         [[(ustr ''Prisma ID'', ustr ''PRSM-100''), (ustr ''License Start Date'', ustr ''2025-04-02''),
           (ustr ''File Type'', ustr ''Audit Report''), (ustr ''Filename'', ustr ''PRSM-100_2025-04-02_audit_1.pdf'')],
          [(ustr ''Prisma ID'', ustr ''PRSM-100''), (ustr ''License Start Date'', ustr ''2025-04-02''),
           (ustr ''File Type'', ustr ''Audit Report''), (ustr ''Filename'', ustr ''PRSM-100_2025-04-02_audit_3.pdf'')]],
       files = [ustr ''..../PRSM-100_2025-04-02_audit_1.pdf'', ustr ''..../PRSM-100_2025-04-02_audit_3.pdf''],
       console = [Saved (ustr ''..../PRSM-100_2025-04-02_audit_1.pdf''),
                  DownloadFailed (ustr ''PRSM-100'') TimeoutError,
                  Saved (ustr ''..../PRSM-100_2025-04-02_audit_3.pdf'')],
       page_calls = [ClickElement 0, SaveAs (ustr ''..../PRSM-100_2025-04-02_audit_1.pdf''),
                     ClickElement 1,
                     ClickElement 2, SaveAs (ustr ''..../PRSM-100_2025-04-02_audit_3.pdf'')],
       log_csv = None\<rparr>)"
  using failed_attachment_is_skipped [of "NoDownload TimeoutError" TimeoutError
      "ustr ''PRSM-100''" "\<lparr>year = 2025, month = 4, day = 2\<rparr>" 0 "[Download (ustr ''a.pdf'') None]" init
      "snd (download_loop (ustr ''PRSM-100'') \<lparr>year = 2025, month = 4, day = 2\<rparr> 0
              [Download (ustr ''a.pdf'') None] init)"
      "[Download (ustr ''c.pdf'') None]"]
  by (simp add: run_defs string_defs failure_def attempt_calls_def)

text \<open>
  C10. Every file name written to the log and every path saved ends in \<^verbatim>\<open>.pdf\<close>,
  in every run; the name the site suggests for the download plays no part in what
  processing the candidate does.
\<close>

theorem extension_is_pdf:
  "(\<forall>e \<in> set (download_log (snd (download_audit_reports session recs init))).
       \<exists>fn. map_of e (ustr ''Filename'') = Some fn \<and> suffix (ustr ''.pdf'') fn)
   \<and> (\<forall>p \<in> set (files (snd (download_audit_reports session recs init))). suffix (ustr ''.pdf'') p)
   \<and> download_one pid ls j (Download n1 outcome) = download_one pid ls j (Download n2 outcome)"
proof -
  let ?I = "\<lambda>s. (\<forall>e \<in> set (download_log s). \<exists>fn. map_of e (ustr ''Filename'') = Some fn \<and> suffix (ustr ''.pdf'') fn)
               \<and> (\<forall>p \<in> set (files s). suffix (ustr ''.pdf'') p)"
  have name: "suffix (ustr ''.pdf'') (audit_filename p l k)" for p l k
    unfolding audit_filename_def suffix_def
    by (rule exI [of _ "p @ ustr ''_'' @ strftime l @ ustr ''_audit_'' @ str_nat (k + 1)"]) simp
  have path: "suffix (ustr ''.pdf'') (os_path_join d f)" if "suffix (ustr ''.pdf'') f" for d f
    using that by (auto simp: os_path_join_def suffix_def)
  have "preserves ?I (download_audit_reports session recs)"
    by (rule run_invariant)
       (auto simp: preserves_def download_one_log download_one_files filename_of_log_entry name path)
  moreover have "?I init" by (simp add: init_def)
  ultimately have "?I (snd (download_audit_reports session recs init))"
    unfolding preserves_def by blast
  moreover have "download_one pid ls j (Download n1 outcome) = download_one pid ls j (Download n2 outcome)"
    by (simp add: download_one_def download_body_def)
  ultimately show ?thesis by blast
qed

theorem extension_is_pdf_witness:
  "files (snd (download_audit_reports (\<lambda>_. None)
     [(\<lparr>account_id = ustr ''PRSM-100'', start_date = \<lparr>year = 2025, month = 4, day = 2\<rparr>\<rparr>,
       \<lparr>raises = (\<lambda>_. None), search_box = True,
         rows = [[[], [], [], [], [], ustr ''PRSM-100'']],
         elements = [Download (ustr ''report.docx'') None]\<rparr>)] init))
     = [ustr ''..../PRSM-100_2025-04-02_audit_1.pdf'']
   \<and> suffix (ustr ''.pdf'') (ustr ''..../PRSM-100_2025-04-02_audit_1.pdf'')"
  using extension_is_pdf [of "\<lambda>_. None"
     "[(\<lparr>account_id = ustr ''PRSM-100'', start_date = \<lparr>year = 2025, month = 4, day = 2\<rparr>\<rparr>,
       \<lparr>raises = (\<lambda>_. None), search_box = True,
         rows = [[[], [], [], [], [], ustr ''PRSM-100'']],
         elements = [Download (ustr ''report.docx'') None]\<rparr>)]"]
  by (simp add: run_defs string_defs)

section \<open>The log file\<close>

text \<open>
  C4 as stated fails: with an empty download log, \<^verbatim>\<open>pd.DataFrame([])\<close> has no
  columns, and the file written is one empty line, not the header row. Here the only
  record has no search result.
\<close>

theorem empty_log_has_no_header:
  "fst (download_audit_reports (\<lambda>_. None)
     [(\<lparr>account_id = ustr ''PRSM-100'', start_date = \<lparr>year = 2025, month = 4, day = 2\<rparr>\<rparr>,
       \<lparr>raises = (\<lambda>_. None), search_box = True, rows = [], elements = []\<rparr>)] init) = None
   \<and> log_csv (snd (download_audit_reports (\<lambda>_. None)
     [(\<lparr>account_id = ustr ''PRSM-100'', start_date = \<lparr>year = 2025, month = 4, day = 2\<rparr>\<rparr>,
       \<lparr>raises = (\<lambda>_. None), search_box = True, rows = [], elements = []\<rparr>)] init)) = Some [[]]
   \<and> log_csv (snd (download_audit_reports (\<lambda>_. None)
     [(\<lparr>account_id = ustr ''PRSM-100'', start_date = \<lparr>year = 2025, month = 4, day = 2\<rparr>\<rparr>,
       \<lparr>raises = (\<lambda>_. None), search_box = True, rows = [], elements = []\<rparr>)] init))
     \<noteq> Some [[Some (ustr ''Prisma ID''), Some (ustr ''License Start Date''), Some (ustr ''File Type''),
                Some (ustr ''Filename'')]]"
  by (simp add: run_defs DataFrame_def to_csv_def)

text \<open>
  C4, amended. When the function returns, the file written holds one line of fields
  per log entry, in order, after a first line that is the header row (Prisma ID,
  License Start Date, File Type, Filename) when the log has an entry and is empty when
  the log is empty. Writing the log raises nothing, whatever the log holds.
\<close>

theorem log_file_content:
  assumes "fst (download_audit_reports session recs init) = None"
  shows "log_csv (snd (download_audit_reports session recs init)) =
           Some ((if download_log (snd (download_audit_reports session recs init)) = [] then []
                  else [Some (ustr ''Prisma ID''), Some (ustr ''License Start Date''), Some (ustr ''File Type''),
                        Some (ustr ''Filename'')])
                 # map (map (Some \<circ> snd))
                     (download_log (snd (download_audit_reports session recs init))))
       \<and> fst (write_log s) = None"
  using assms run_log_entries [of session recs]
  by (simp add: run_log_csv [of session recs init] DataFrame_log_entries to_csv_def
        write_log_returns)

theorem log_file_content_witness:
  "log_csv (snd (download_audit_reports (\<lambda>_. None)
     [(\<lparr>account_id = ustr ''PRSM-100'', start_date = \<lparr>year = 2025, month = 4, day = 2\<rparr>\<rparr>,
       \<lparr>raises = (\<lambda>_. None), search_box = True,
         rows = [[[], [], [], [], [], ustr ''PRSM-100'']],
         elements = [Download (ustr ''report.pdf'') None]\<rparr>)] init))
   = Some [[Some (ustr ''Prisma ID''), Some (ustr ''License Start Date''), Some (ustr ''File Type''), Some (ustr ''Filename'')],
           [Some (ustr ''PRSM-100''), Some (ustr ''2025-04-02''), Some (ustr ''Audit Report''),
            Some (ustr ''PRSM-100_2025-04-02_audit_1.pdf'')]]
   \<and> log_csv (snd (download_audit_reports (\<lambda>_. None) [] init)) = Some [[]]"
  using log_file_content [of "\<lambda>_. None"
     "[(\<lparr>account_id = ustr ''PRSM-100'', start_date = \<lparr>year = 2025, month = 4, day = 2\<rparr>\<rparr>,
       \<lparr>raises = (\<lambda>_. None), search_box = True,
         rows = [[[], [], [], [], [], ustr ''PRSM-100'']],
         elements = [Download (ustr ''report.pdf'') None]\<rparr>)]" init]
    log_file_content [of "\<lambda>_. None" "[]" init]
  by (simp add: run_defs string_defs DataFrame_def to_csv_def add_key_def)

text \<open>
  C5 as stated fails: the log is written by the statements after the loop (lines 172
  to 176), with no \<^verbatim>\<open>finally\<close>. An interrupt while the second record is searched
  for ends the function with the first record's entry in \<^verbatim>\<open>download_log\<close> and no
  file written.
\<close>

theorem interrupt_leaves_log_unwritten:
  "fst (download_audit_reports (\<lambda>_. None)
     [(\<lparr>account_id = ustr ''PRSM-100'', start_date = \<lparr>year = 2025, month = 4, day = 2\<rparr>\<rparr>,
       \<lparr>raises = (\<lambda>_. None), search_box = True,
         rows = [[[], [], [], [], [], ustr ''PRSM-100'']],
         elements = [Download (ustr ''report.pdf'') None]\<rparr>),
      (\<lparr>account_id = ustr ''PRSM-200'', start_date = \<lparr>year = 2025, month = 4, day = 3\<rparr>\<rparr>,
       \<lparr>raises = (\<lambda>_. None)(SettleSearch \<mapsto> KeyboardInterrupt), search_box = True,
         rows = [[[], [], [], [], [], ustr ''PRSM-200'']],
         elements = [Download (ustr ''report.pdf'') None]\<rparr>)] init) = Some KeyboardInterrupt
  \<and> download_log (snd (download_audit_reports (\<lambda>_. None)
     [(\<lparr>account_id = ustr ''PRSM-100'', start_date = \<lparr>year = 2025, month = 4, day = 2\<rparr>\<rparr>,
       \<lparr>raises = (\<lambda>_. None), search_box = True,
         rows = [[[], [], [], [], [], ustr ''PRSM-100'']],
         elements = [Download (ustr ''report.pdf'') None]\<rparr>),
      (\<lparr>account_id = ustr ''PRSM-200'', start_date = \<lparr>year = 2025, month = 4, day = 3\<rparr>\<rparr>,
       \<lparr>raises = (\<lambda>_. None)(SettleSearch \<mapsto> KeyboardInterrupt), search_box = True,
         rows = [[[], [], [], [], [], ustr ''PRSM-200'']],
         elements = [Download (ustr ''report.pdf'') None]\<rparr>)] init))
    = [[(ustr ''Prisma ID'', ustr ''PRSM-100''), (ustr ''License Start Date'', ustr ''2025-04-02''),
        (ustr ''File Type'', ustr ''Audit Report''), (ustr ''Filename'', ustr ''PRSM-100_2025-04-02_audit_1.pdf'')]]
  \<and> log_csv (snd (download_audit_reports (\<lambda>_. None)
     [(\<lparr>account_id = ustr ''PRSM-100'', start_date = \<lparr>year = 2025, month = 4, day = 2\<rparr>\<rparr>,
       \<lparr>raises = (\<lambda>_. None), search_box = True,
         rows = [[[], [], [], [], [], ustr ''PRSM-100'']],
         elements = [Download (ustr ''report.pdf'') None]\<rparr>),
      (\<lparr>account_id = ustr ''PRSM-200'', start_date = \<lparr>year = 2025, month = 4, day = 3\<rparr>\<rparr>,
       \<lparr>raises = (\<lambda>_. None)(SettleSearch \<mapsto> KeyboardInterrupt), search_box = True,
         rows = [[[], [], [], [], [], ustr ''PRSM-200'']],
         elements = [Download (ustr ''report.pdf'') None]\<rparr>)] init)) = None"
  by (simp add: run_defs string_defs)

text \<open>
  C5, amended. The log file is written exactly when the function returns without an
  exception, and then from the whole accumulated log; when an exception leaves the
  function, no file is written. The function does return, so that the entries of a
  partly successful run are written, when the session's calls succeed, no record's
  navigation or grid wait raises, and every exception raised while a record is
  located or an attachment is downloaded is one that \<^verbatim>\<open>except Exception\<close> catches.
\<close>

theorem log_written_iff_returned:
  "log_csv (snd (download_audit_reports session recs init)) =
     (if fst (download_audit_reports session recs init) = None
      then Some (to_csv (DataFrame (download_log (snd (download_audit_reports session recs init)))))
      else None)
   \<and> ((\<forall>c. session c = None)
        \<and> (\<forall>(r, pg) \<in> set recs. raises pg Goto = None \<and> raises pg WaitGrid = None
             \<and> (\<forall>c e. raises pg c = Some e \<longrightarrow> is_Exception e)
             \<and> (\<forall>a \<in> set (elements pg). catchable a))
       \<longrightarrow> fst (download_audit_reports session recs init) = None)"
proof -
  have 1: "log_csv (snd (download_audit_reports session recs init)) =
     (if fst (download_audit_reports session recs init) = None
      then Some (to_csv (DataFrame (download_log (snd (download_audit_reports session recs init)))))
      else None)"
    using run_log_csv [of session recs init] by (simp add: init_def)
  have 2: "fst (download_audit_reports session recs init) = None"
    if session: "\<forall>c. session c = None"
      and recs: "\<forall>(r, pg) \<in> set recs. raises pg Goto = None \<and> raises pg WaitGrid = None
             \<and> (\<forall>c e. raises pg c = Some e \<longrightarrow> is_Exception e)
             \<and> (\<forall>a \<in> set (elements pg). catchable a)"
  proof -
    let ?s4 = "init\<lparr>page_calls := page_calls init @ [StartPlaywright, Launch, NewContext, NewPage]\<rparr>"
    obtain x s5 where r: "records_loop recs ?s4 = (x, s5)"
      by (cases "records_loop recs ?s4")
    from records_loop_contained [OF recs, of ?s4] have "x = None"
      by (simp add: r)
    with session show ?thesis
      by (simp add: run_cases r seq_def call_def write_log_returns)
  qed
  from 1 2 show ?thesis by blast
qed

theorem log_written_iff_returned_witness:
  "fst (download_audit_reports (\<lambda>_. None)
     [(\<lparr>account_id = ustr ''PRSM-100'', start_date = \<lparr>year = 2025, month = 4, day = 2\<rparr>\<rparr>,
       \<lparr>raises = (\<lambda>_. None)(QueryRows \<mapsto> TimeoutError), search_box = True,
         rows = [[[], [], [], [], [], ustr ''PRSM-100'']],
         elements = [Download (ustr ''report.pdf'') None]\<rparr>),
      (\<lparr>account_id = ustr ''PRSM-200'', start_date = \<lparr>year = 2025, month = 4, day = 3\<rparr>\<rparr>,
       \<lparr>raises = (\<lambda>_. None), search_box = True,
         rows = [[[], [], [], [], [], ustr ''PRSM-200'']],
         elements = [NoDownload TimeoutError, Download (ustr ''report.pdf'') None]\<rparr>)] init) = None
   \<and> log_csv (snd (download_audit_reports (\<lambda>_. None)
     [(\<lparr>account_id = ustr ''PRSM-100'', start_date = \<lparr>year = 2025, month = 4, day = 2\<rparr>\<rparr>,
       \<lparr>raises = (\<lambda>_. None)(QueryRows \<mapsto> TimeoutError), search_box = True,
         rows = [[[], [], [], [], [], ustr ''PRSM-100'']],
         elements = [Download (ustr ''report.pdf'') None]\<rparr>),
      (\<lparr>account_id = ustr ''PRSM-200'', start_date = \<lparr>year = 2025, month = 4, day = 3\<rparr>\<rparr>,
       \<lparr>raises = (\<lambda>_. None), search_box = True,
         rows = [[[], [], [], [], [], ustr ''PRSM-200'']],
         elements = [NoDownload TimeoutError, Download (ustr ''report.pdf'') None]\<rparr>)] init))
   = Some [[Some (ustr ''Prisma ID''), Some (ustr ''License Start Date''), Some (ustr ''File Type''), Some (ustr ''Filename'')],
           [Some (ustr ''PRSM-200''), Some (ustr ''2025-04-03''), Some (ustr ''Audit Report''),
            Some (ustr ''PRSM-200_2025-04-03_audit_2.pdf'')]]"
  using log_written_iff_returned [of "\<lambda>_. None"
     "[(\<lparr>account_id = ustr ''PRSM-100'', start_date = \<lparr>year = 2025, month = 4, day = 2\<rparr>\<rparr>,
       \<lparr>raises = (\<lambda>_. None)(QueryRows \<mapsto> TimeoutError), search_box = True,
         rows = [[[], [], [], [], [], ustr ''PRSM-100'']],
         elements = [Download (ustr ''report.pdf'') None]\<rparr>),
      (\<lparr>account_id = ustr ''PRSM-200'', start_date = \<lparr>year = 2025, month = 4, day = 3\<rparr>\<rparr>,
       \<lparr>raises = (\<lambda>_. None), search_box = True,
         rows = [[[], [], [], [], [], ustr ''PRSM-200'']],
         elements = [NoDownload TimeoutError, Download (ustr ''report.pdf'') None]\<rparr>)]"]
  by (simp add: run_defs string_defs DataFrame_def to_csv_def add_key_def)

end
